theory Spec2Isabelle
  imports Complex_Main "HOL-Library.Sublist" "HOL-Library.Multiset"
begin

section \<open>Data model (shared/schema.ts)\<close>

text \<open>
  Every table of the schema that the storage operations below read or write is a record
  type for its rows. The \<open>Insert...\<close> record holds the columns a caller supplies
  (\<open>createInsertSchema(...).omit(...)\<close>); the row type has in addition the columns the
  database fills in (the \<open>serial\<close> key and the defaulted columns). Columns declared
  without \<open>notNull()\<close> are nullable and carry an \<open>option\<close>. Column names that occur
  in several tables carry the table as a prefix. Dates are the ISO strings the driver
  returns, timestamps are abstract clock readings, integers are unbounded.
\<close>

record InsertStudent =
  firstName :: string
  lastName :: string
  dateOfBirth :: string
  yearGroup :: int
  tutorGroup :: string
  admissionDate :: string

record Student = InsertStudent +
  student_id :: int
  attendanceSessionsPossible :: "int option"
  attendanceSessionsPresent :: "int option"
  behaviourPoints :: "int option"

record InsertAttendance =
  att_studentId :: int
  att_date :: string
  att_session :: string
  att_status :: string

record Attendance = InsertAttendance +
  att_id :: int
  att_recordedAt :: "nat option"

record InsertBehaviour =
  beh_studentId :: int
  beh_type :: string
  beh_category :: string
  beh_points :: int
  beh_notes :: "string option"

record Behaviour = InsertBehaviour +
  beh_id :: int
  beh_date :: "nat option"

text \<open>
  In \<open>InsertDetention\<close> the status is optional (the column has a default) and the
  reason is optional and nullable. \<open>Partial<InsertDetention>\<close> makes every field
  optional: \<open>None\<close> is a key that is absent or \<open>undefined\<close>.
\<close>

record InsertDetention =
  ins_studentId :: int
  ins_type :: string
  ins_date :: string
  ins_time :: string
  ins_location :: string
  ins_status :: "string option"
  ins_reason :: "string option"

record Detention =
  det_id :: int
  det_studentId :: int
  det_type :: string
  det_date :: string
  det_time :: string
  det_location :: string
  det_status :: string
  det_reason :: "string option"

record PartialInsertDetention =
  upd_studentId :: "int option"
  upd_type :: "string option"
  upd_date :: "string option"
  upd_time :: "string option"
  upd_location :: "string option"
  upd_status :: "string option"
  upd_reason :: "string option option"

text \<open>
  The database: each table is the list of its rows in insertion order (the order in
  which an unordered \<open>select\<close> returns them), together with the next value of its
  \<open>serial\<close> sequence.
\<close>

record store =
  students :: "Student list"
  attendance :: "Attendance list"
  behaviour :: "Behaviour list"
  detentions :: "Detention list"
  studentsSeq :: int
  attendanceSeq :: int
  behaviourSeq :: int
  detentionsSeq :: int

definition emptyStore :: store where
  "emptyStore = \<lparr>students = [], attendance = [], behaviour = [], detentions = [],
     studentsSeq = 1, attendanceSeq = 1, behaviourSeq = 1, detentionsSeq = 1\<rparr>"

text \<open>A rejected promise carries a JavaScript \<open>Error\<close> with its message.\<close>

datatype error = Error string

section \<open>Storage operations (server/storage.ts, class DatabaseStorage)\<close>

text \<open>\<open>x || 0\<close> on a nullable integer column: \<open>null\<close> and \<open>0\<close> both give \<open>0\<close>.\<close>

definition orZero :: "int option \<Rightarrow> int" where
  "orZero v = (case v of None \<Rightarrow> 0 | Some n \<Rightarrow> n)"

text \<open>\<open>getStudents\<close>: all rows, \<open>orderBy(desc(students.id))\<close>.\<close>

definition descById :: "Student list \<Rightarrow> Student list" where
  "descById rows = rev (sort_key student_id rows)"

definition getStudents :: "store \<Rightarrow> Student list" where
  "getStudents st = descById (students st)"

text \<open>\<open>getStudent\<close>: the first row with the id, \<open>undefined\<close> when there is none.\<close>

definition getStudent :: "store \<Rightarrow> int \<Rightarrow> Student option" where
  "getStudent st sid = find (\<lambda>s. student_id s = sid) (students st)"

text \<open>
  \<open>createStudent\<close>: the insert takes the next key and the column defaults
  (188, 188 and 0) for the three counters, which the insert schema omits.
\<close>

definition createStudent :: "InsertStudent \<Rightarrow> store \<Rightarrow> Student \<times> store" where
  "createStudent insertStudent st =
     (let student = \<lparr>firstName = firstName insertStudent, lastName = lastName insertStudent,
            dateOfBirth = dateOfBirth insertStudent, yearGroup = yearGroup insertStudent,
            tutorGroup = tutorGroup insertStudent, admissionDate = admissionDate insertStudent,
            student_id = studentsSeq st,
            attendanceSessionsPossible = Some 188, attendanceSessionsPresent = Some 188,
            behaviourPoints = Some 0\<rparr>
      in (student, st\<lparr>students := students st @ [student], studentsSeq := studentsSeq st + 1\<rparr>))"

text \<open>
  \<open>recordAttendance\<close>: the row is inserted first; the counter is updated only when the
  student is found, on every row with that id. The function has no \<open>throw\<close>, so the
  promise always resolves (\<open>Inr\<close>) with the inserted row. \<open>now\<close> is the database clock
  that fills \<open>recorded_at\<close>.
\<close>

definition recordAttendance :: "nat \<Rightarrow> InsertAttendance \<Rightarrow> store \<Rightarrow> error + (Attendance \<times> store)" where
  "recordAttendance now r st =
     (let att = \<lparr>att_studentId = att_studentId r, att_date = att_date r,
            att_session = att_session r, att_status = att_status r,
            att_id = attendanceSeq st, att_recordedAt = Some now\<rparr>;
          st1 = st\<lparr>attendance := attendance st @ [att], attendanceSeq := attendanceSeq st + 1\<rparr>
      in case getStudent st1 (att_studentId r) of
           None \<Rightarrow> Inr (att, st1)
         | Some student \<Rightarrow>
             (let presentInc = (if att_status r \<noteq> ''PRESENT'' \<and> att_status r \<noteq> ''LATE'' then - 1 else 0);
                  v = max 0 (orZero (attendanceSessionsPresent student) + presentInc)
              in Inr (att, st1\<lparr>students :=
                   map (\<lambda>s. if student_id s = att_studentId r
                             then s\<lparr>attendanceSessionsPresent := Some v\<rparr> else s)
                       (students st1)\<rparr>)))"

text \<open>
  \<open>createBehaviour\<close>: \<open>today\<close> is the local clock's ISO date, \<open>now\<close> the database clock.
  The guard reads the last of today's marks of the student in table order and throws
  before anything is written. The block under \<open>if (newPoints <= -10)\<close> is empty in the
  source, so the model has no branch for it.
\<close>

definition lastMark :: "Attendance list \<Rightarrow> Attendance option" where
  "lastMark todayAttendance = (if todayAttendance = [] then None else Some (last todayAttendance))"

definition absentToday :: "string \<Rightarrow> int \<Rightarrow> store \<Rightarrow> bool" where
  "absentToday today sid st =
     (let todayAttendance = filter (\<lambda>a. att_studentId a = sid \<and> att_date a = today) (attendance st)
      in case lastMark todayAttendance of
           None \<Rightarrow> False
         | Some m \<Rightarrow> att_status m = ''ABSENT_UNAUTH'' \<or> att_status m = ''ABSENT_AUTH'')"

definition createBehaviour :: "string \<Rightarrow> nat \<Rightarrow> InsertBehaviour \<Rightarrow> store \<Rightarrow> error + (Behaviour \<times> store)" where
  "createBehaviour today now r st =
     (if beh_points r > 0 \<and> absentToday today (beh_studentId r) st
      then Inl (Error ''Cannot award positive points to an absent student'')
      else
        (let beh = \<lparr>beh_studentId = beh_studentId r, beh_type = beh_type r,
               beh_category = beh_category r, beh_points = beh_points r,
               beh_notes = beh_notes r, beh_id = behaviourSeq st, beh_date = Some now\<rparr>;
             st1 = st\<lparr>behaviour := behaviour st @ [beh], behaviourSeq := behaviourSeq st + 1\<rparr>
         in case getStudent st1 (beh_studentId r) of
              None \<Rightarrow> Inr (beh, st1)
            | Some student \<Rightarrow>
                (let newPoints = orZero (behaviourPoints student) + beh_points r
                 in Inr (beh, st1\<lparr>students :=
                      map (\<lambda>s. if student_id s = beh_studentId r
                                then s\<lparr>behaviourPoints := Some newPoints\<rparr> else s)
                          (students st1)\<rparr>))))"

text \<open>
  \<open>deleteStudent\<close>: the rows of the three owned tables go first, then the student.
\<close>

definition deleteStudent :: "int \<Rightarrow> store \<Rightarrow> store" where
  "deleteStudent sid st =
     st\<lparr>attendance := filter (\<lambda>a. att_studentId a \<noteq> sid) (attendance st),
        behaviour := filter (\<lambda>b. beh_studentId b \<noteq> sid) (behaviour st),
        detentions := filter (\<lambda>d. det_studentId d \<noteq> sid) (detentions st),
        students := filter (\<lambda>s. student_id s \<noteq> sid) (students st)\<rparr>"

text \<open>\<open>createDetention\<close>: a missing status takes the column default.\<close>

definition createDetention :: "InsertDetention \<Rightarrow> store \<Rightarrow> Detention \<times> store" where
  "createDetention r st =
     (let det = \<lparr>det_id = detentionsSeq st, det_studentId = ins_studentId r, det_type = ins_type r,
            det_date = ins_date r, det_time = ins_time r, det_location = ins_location r,
            det_status = (case ins_status r of None \<Rightarrow> ''SCHEDULED'' | Some v \<Rightarrow> v),
            det_reason = ins_reason r\<rparr>
      in (det, st\<lparr>detentions := detentions st @ [det], detentionsSeq := detentionsSeq st + 1\<rparr>))"

text \<open>
  \<open>updateDetention\<close>: \<open>set(updates)\<close> writes the keys that are present and throws when
  there is none; the result is the first updated row, \<open>undefined\<close> when no row has the id.
\<close>

definition noValues :: "PartialInsertDetention \<Rightarrow> bool" where
  "noValues u \<longleftrightarrow> upd_studentId u = None \<and> upd_type u = None \<and> upd_date u = None \<and>
     upd_time u = None \<and> upd_location u = None \<and> upd_status u = None \<and> upd_reason u = None"

definition setDetention :: "PartialInsertDetention \<Rightarrow> Detention \<Rightarrow> Detention" where
  "setDetention u d =
     \<lparr>det_id = det_id d,
      det_studentId = (case upd_studentId u of None \<Rightarrow> det_studentId d | Some v \<Rightarrow> v),
      det_type = (case upd_type u of None \<Rightarrow> det_type d | Some v \<Rightarrow> v),
      det_date = (case upd_date u of None \<Rightarrow> det_date d | Some v \<Rightarrow> v),
      det_time = (case upd_time u of None \<Rightarrow> det_time d | Some v \<Rightarrow> v),
      det_location = (case upd_location u of None \<Rightarrow> det_location d | Some v \<Rightarrow> v),
      det_status = (case upd_status u of None \<Rightarrow> det_status d | Some v \<Rightarrow> v),
      det_reason = (case upd_reason u of None \<Rightarrow> det_reason d | Some v \<Rightarrow> v)\<rparr>"

definition updateDetention :: "int \<Rightarrow> PartialInsertDetention \<Rightarrow> store \<Rightarrow> error + (Detention option \<times> store)" where
  "updateDetention i updates st =
     (if noValues updates then Inl (Error ''No values to set'')
      else
        (let rows = map (\<lambda>d. if det_id d = i then setDetention updates d else d) (detentions st)
         in Inr (find (\<lambda>d. det_id d = i) rows, st\<lparr>detentions := rows\<rparr>)))"

subsection \<open>Searching students\<close>

text \<open>
  The name filter is a SQL \<open>LIKE\<close> on lower-cased text. \<open>likeMatch p t\<close> is the
  matching of PostgreSQL: \<open>%\<close> stands for any run of characters, \<open>_\<close> for exactly one,
  and a backslash makes the next pattern character literal. (A pattern ending in a lone
  backslash is an error in PostgreSQL; the pattern built below ends in \<open>%\<close>, so matching
  never gets there, and the model answers \<open>False\<close>.)
\<close>

fun likeMatch :: "string \<Rightarrow> string \<Rightarrow> bool" where
  "likeMatch [] [] = True"
| "likeMatch [] (x # t) = False"
| "likeMatch (c # p) [] = (c = CHR ''%'' \<and> likeMatch p [])"
| "likeMatch (c # p) (x # t) =
     (if c = CHR ''%'' then likeMatch p (x # t) \<or> likeMatch (c # p) t
      else if c = CHR ''_'' then likeMatch p t
      else if c = CHR 0x5C then (case p of [] \<Rightarrow> False | e # p' \<Rightarrow> x = e \<and> likeMatch p' t)
      else x = c \<and> likeMatch p t)"

text \<open>
  \<open>searchStudents\<close>: an optional argument is \<open>None\<close> when it is \<open>undefined\<close>. Each
  \<open>if (arg)\<close> tests truthiness, so the empty string and the number 0 add no condition.
  The query is lower-cased by JavaScript's \<open>String.prototype.toLowerCase\<close> and the
  name by PostgreSQL's \<open>lower()\<close>. These are two library functions: both follow
  Unicode, and the second also follows the locale of the database. The model takes them
  as the parameters \<open>toLowerCase\<close> and \<open>lower\<close>, so that nothing is fixed about
  them here.
\<close>

definition searchStudents ::
  "(string \<Rightarrow> string) \<Rightarrow> (string \<Rightarrow> string) \<Rightarrow>
   string option \<Rightarrow> int option \<Rightarrow> string option \<Rightarrow> store \<Rightarrow> Student list" where
  "searchStudents toLowerCase lower query year tutor st =
     (let conditions =
            (case query of
               None \<Rightarrow> []
             | Some q \<Rightarrow>
                 if q \<noteq> []
                 then [\<lambda>s. likeMatch (''%'' @ toLowerCase q @ ''%'')
                               (lower (firstName s @ '' '' @ lastName s))]
                 else [])
          @ (case year of
               None \<Rightarrow> []
             | Some y \<Rightarrow> if y \<noteq> 0 then [\<lambda>s. yearGroup s = y] else [])
          @ (case tutor of
               None \<Rightarrow> []
             | Some g \<Rightarrow> if g \<noteq> [] then [\<lambda>s. tutorGroup s = g] else [])
      in if length conditions = 0 then getStudents st
         else descById (filter (\<lambda>s. list_all (\<lambda>c. c s) conditions) (students st)))"

subsection \<open>Sequences of operations\<close>

text \<open>
  A call of the storage interface with its arguments and the clock readings it takes.
  A call that throws leaves the store as it was at the throw; in the operations below
  every throw comes before the first write. The operations on users, tutor groups and
  timetables read and write none of the four tables of the store and are left out, as
  are the reads that return rows as they are.
\<close>

datatype op =
    CreateStudent InsertStudent
  | RecordAttendance nat InsertAttendance
  | CreateBehaviour string nat InsertBehaviour
  | DeleteStudent int
  | CreateDetention InsertDetention
  | UpdateDetention int PartialInsertDetention
  | SearchStudents "string option" "int option" "string option"

fun step :: "store \<Rightarrow> op \<Rightarrow> store" where
  "step st (CreateStudent i) = snd (createStudent i st)"
| "step st (RecordAttendance now r) =
     (case recordAttendance now r st of Inl e \<Rightarrow> st | Inr (a, st') \<Rightarrow> st')"
| "step st (CreateBehaviour today now r) =
     (case createBehaviour today now r st of Inl e \<Rightarrow> st | Inr (b, st') \<Rightarrow> st')"
| "step st (DeleteStudent sid) = deleteStudent sid st"
| "step st (CreateDetention r) = snd (createDetention r st)"
| "step st (UpdateDetention i u) =
     (case updateDetention i u st of Inl e \<Rightarrow> st | Inr (d, st') \<Rightarrow> st')"
| "step st (SearchStudents query year tutor) = st"

definition run :: "op list \<Rightarrow> store" where
  "run ops = foldl step emptyStore ops"

text \<open>
  A run of \<open>createBehaviour\<close> calls, each with its clock readings, up to the first one
  that throws.
\<close>

fun createBehaviours :: "(string \<times> nat \<times> InsertBehaviour) list \<Rightarrow> store \<Rightarrow> error + store" where
  "createBehaviours [] st = Inr st"
| "createBehaviours ((today, now, r) # calls) st =
     (case createBehaviour today now r st of
        Inl e \<Rightarrow> Inl e
      | Inr (b, st') \<Rightarrow> createBehaviours calls st')"

subsection \<open>Double-precision arithmetic\<close>

text \<open>
  JavaScript numbers are IEEE-754 doubles, and the two percentages are computed as
  \<open>Math.round((a / b) * 100)\<close> on them. A finite double is \<open>m * 2 ^ e\<close> for integers
  \<open>m\<close> and \<open>e\<close> with \<open>\<bar>m\<bar> \<le> 2 ^ 53\<close>; the model keeps the pair \<open>(m, e)\<close>.
  \<open>nearestDouble n d\<close> is the double nearest to the fraction \<open>n / d\<close> (for \<open>0 < d\<close>),
  ties going to the even mantissa, which is the result IEEE-754 prescribes for a
  division and a multiplication. Exponent overflow and subnormal numbers are left out:
  the values that occur lie far inside the normal range. The integers that enter
  (row counts and counter sums) are taken to be below \<open>2 ^ 53\<close>, where the conversion
  to a double is exact.
\<close>

type_synonym double = "int \<times> int"

definition roundHalfEven :: "int \<Rightarrow> int \<Rightarrow> int" where
  "roundHalfEven n d =
     (let q = n div d; r = n mod d
      in if 2 * r < d then q else if d < 2 * r then q + 1 else if even q then q else q + 1)"

function expDown :: "int \<Rightarrow> int \<Rightarrow> nat" where
  "expDown n d = (if 0 < n \<and> n < 2 ^ 52 * d then Suc (expDown (2 * n) d) else 0)"
  by pat_completeness auto
termination
  by (relation "measure (\<lambda>(n, d). nat (2 ^ 52 * d - n))") auto

function expUp :: "int \<Rightarrow> int \<Rightarrow> nat" where
  "expUp n d = (if 0 < d \<and> 2 ^ 53 * d \<le> n then Suc (expUp n (2 * d)) else 0)"
  by pat_completeness auto
termination
  by (relation "measure (\<lambda>(n, d). nat (n - 2 ^ 53 * d + 1))") auto

definition nearestDouble :: "int \<Rightarrow> int \<Rightarrow> double" where
  "nearestDouble n d =
     (if n = 0 then (0, 0)
      else
        (let a = \<bar>n\<bar>; up = expUp a d; down = expDown a d;
             m = roundHalfEven (a * 2 ^ down) (d * 2 ^ up)
         in (sgn n * m, int up - int down)))"

text \<open>\<open>a / b\<close> for integers \<open>a\<close> and \<open>b > 0\<close>, and \<open>x * c\<close> for a double and an integer.\<close>

definition fdiv :: "int \<Rightarrow> int \<Rightarrow> double" where
  "fdiv a b = nearestDouble a b"

definition fmul :: "double \<Rightarrow> int \<Rightarrow> double" where
  "fmul x c =
     (case x of (m, e) \<Rightarrow>
        if 0 \<le> e then nearestDouble (m * c * 2 ^ nat e) 1
        else nearestDouble (m * c) (2 ^ nat (- e)))"

text \<open>\<open>Math.round\<close>: the integer \<open>\<lfloor>x + 1/2\<rfloor>\<close>, computed exactly.\<close>

definition mathRound :: "double \<Rightarrow> int" where
  "mathRound x =
     (case x of (m, e) \<Rightarrow>
        if 0 \<le> e then m * 2 ^ nat e
        else (2 * m + 2 ^ nat (- e)) div 2 ^ (nat (- e) + 1))"

definition jsPercent :: "int \<Rightarrow> int \<Rightarrow> int" where
  "jsPercent a b = mathRound (fmul (fdiv a b) 100)"

subsection \<open>Rollups\<close>

text \<open>
  \<open>getAttendancePercentageToday\<close>: \<open>present\<close> is the list of attendance rows dated
  \<open>today\<close> with status \<open>PRESENT\<close> or \<open>LATE\<close>. The trailing \<open>|| 0\<close> turns \<open>NaN\<close> and
  \<open>0\<close> into \<open>0\<close>; the quotient is never \<open>NaN\<close>, because the divisor is not zero here.
\<close>

definition getAttendancePercentageToday :: "string \<Rightarrow> store \<Rightarrow> int" where
  "getAttendancePercentageToday today st =
     (let allStudents = getStudents st
      in if length allStudents = 0 then 0
         else
           (let present = filter (\<lambda>a. att_date a = today \<and>
                                       (att_status a = ''PRESENT'' \<or> att_status a = ''LATE''))
                            (attendance st)
            in jsPercent (int (length present)) (int (length allStudents))))"

text \<open>
  \<open>getTutorGroupAttendance\<close>: a JavaScript \<open>Set\<close> keeps its members in the order of
  their first insertion, so \<open>groups\<close> lists each tutor group once, in the order of
  first appearance in the roster.
\<close>

record GroupAttendance =
  name :: string
  present :: int

definition setInsert :: "'a list \<Rightarrow> 'a \<Rightarrow> 'a list" where
  "setInsert acc x = (if x \<in> set acc then acc else acc @ [x])"

definition arrayFromSet :: "'a list \<Rightarrow> 'a list" where
  "arrayFromSet xs = foldl setInsert [] xs"

definition getTutorGroupAttendance :: "store \<Rightarrow> GroupAttendance list" where
  "getTutorGroupAttendance st =
     (let allStudents = getStudents st;
          groups = arrayFromSet (map tutorGroup allStudents)
      in map (\<lambda>group.
            (let groupStudents = filter (\<lambda>s. tutorGroup s = group) allStudents;
                 totalPossible = int (length groupStudents) * 188;
                 totalPresent = foldl (\<lambda>acc s. acc + orZero (attendanceSessionsPresent s)) 0 groupStudents
             in \<lparr>name = group,
                 present = (if totalPossible > 0 then jsPercent totalPresent totalPossible else 0)\<rparr>))
          groups)"

subsection \<open>Auxiliary notions and sample data\<close>

text \<open>
  The range of the attendance counters of a row created by \<open>createStudent\<close>, and the
  points of a run of \<open>createBehaviour\<close> calls.
\<close>

definition counterOk :: "Student \<Rightarrow> bool" where
  "counterOk s \<longleftrightarrow> attendanceSessionsPossible s = Some 188 \<and>
     (case attendanceSessionsPresent s of None \<Rightarrow> False | Some p \<Rightarrow> 0 \<le> p \<and> p \<le> 188)"

definition pointsOf :: "(string \<times> nat \<times> InsertBehaviour) list \<Rightarrow> int list" where
  "pointsOf calls = map (\<lambda>c. beh_points (snd (snd c))) calls"

text \<open>
  Text in ASCII, and the lower-casing of the letters \<open>A\<close> to \<open>Z\<close>, which is what
  a case-insensitive comparison means on ASCII text. \<open>asciiNames\<close> holds of a store
  in which the names of all students are ASCII text.
\<close>

definition isAscii :: "string \<Rightarrow> bool" where
  "isAscii s \<longleftrightarrow> (\<forall>c\<in>set s. (of_char c :: nat) < 128)"

definition asciiNames :: "store \<Rightarrow> bool" where
  "asciiNames st \<longleftrightarrow> (\<forall>s\<in>set (students st). isAscii (firstName s) \<and> isAscii (lastName s))"

definition asciiLowerChar :: "char \<Rightarrow> char" where
  "asciiLowerChar c =
     (let n = (of_char c :: nat) in if 65 \<le> n \<and> n \<le> 90 then char_of (n + 32) else c)"

definition asciiLower :: "string \<Rightarrow> string" where
  "asciiLower s = map asciiLowerChar s"

text \<open>
  The filters of \<open>searchStudents\<close> as the specification words them: a case-insensitive
  substring match on the full name, equality on the year group, equality on the tutor
  group, each only when the filter is supplied with a non-empty, non-zero value.
  \<open>noWildcards\<close> holds of a query that contains none of the characters \<open>LIKE\<close> treats
  specially.
\<close>

definition noWildcards :: "string \<Rightarrow> bool" where
  "noWildcards q \<longleftrightarrow> (\<forall>c\<in>set q. c \<noteq> CHR ''%'' \<and> c \<noteq> CHR ''_'' \<and> c \<noteq> CHR 0x5C)"

definition specMatches :: "string option \<Rightarrow> int option \<Rightarrow> string option \<Rightarrow> Student \<Rightarrow> bool" where
  "specMatches query year tutor s \<longleftrightarrow>
     (case query of None \<Rightarrow> True
      | Some q \<Rightarrow> q = [] \<or> sublist (asciiLower q) (asciiLower (firstName s @ '' '' @ lastName s))) \<and>
     (case year of None \<Rightarrow> True | Some y \<Rightarrow> y = 0 \<or> yearGroup s = y) \<and>
     (case tutor of None \<Rightarrow> True | Some g \<Rightarrow> g = [] \<or> tutorGroup s = g)"

text \<open>
  The real number a double stands for, and the percentage as the specification words
  it: \<open>100 * a / b\<close> rounded to the nearest integer, a half going up.
\<close>

definition doubleValue :: "double \<Rightarrow> real" where
  "doubleValue x = (case x of (m, e) \<Rightarrow> of_int m * 2 powr of_int e)"

definition specPercent :: "int \<Rightarrow> int \<Rightarrow> int" where
  "specPercent a b = (200 * a + b) div (2 * b)"

text \<open>The members of a tutor group in the roster, and the sum of their counters.\<close>

definition groupMembers :: "store \<Rightarrow> string \<Rightarrow> Student list" where
  "groupMembers st g = filter (\<lambda>s. tutorGroup s = g) (getStudents st)"

definition totalPresent :: "Student list \<Rightarrow> int" where
  "totalPresent ms = sum_list (map (\<lambda>s. orZero (attendanceSessionsPresent s)) ms)"

definition alice :: InsertStudent where
  "alice = \<lparr>firstName = ''Alice'', lastName = ''Archer'', dateOfBirth = ''2012-03-04'',
     yearGroup = 7, tutorGroup = ''7A'', admissionDate = ''2023-09-01''\<rparr>"

definition bob :: InsertStudent where
  "bob = \<lparr>firstName = ''Bob'', lastName = ''Baker'', dateOfBirth = ''2012-07-08'',
     yearGroup = 7, tutorGroup = ''7A'', admissionDate = ''2023-09-01''\<rparr>"

definition aliceRow :: "int \<Rightarrow> int \<Rightarrow> Student" where
  "aliceRow p b = \<lparr>firstName = ''Alice'', lastName = ''Archer'', dateOfBirth = ''2012-03-04'',
     yearGroup = 7, tutorGroup = ''7A'', admissionDate = ''2023-09-01'', student_id = 1,
     attendanceSessionsPossible = Some 188, attendanceSessionsPresent = Some p,
     behaviourPoints = Some b\<rparr>"

definition bobRow :: "int \<Rightarrow> int \<Rightarrow> Student" where
  "bobRow p b = \<lparr>firstName = ''Bob'', lastName = ''Baker'', dateOfBirth = ''2012-07-08'',
     yearGroup = 7, tutorGroup = ''7A'', admissionDate = ''2023-09-01'', student_id = 2,
     attendanceSessionsPossible = Some 188, attendanceSessionsPresent = Some p,
     behaviourPoints = Some b\<rparr>"

definition mark :: "int \<Rightarrow> string \<Rightarrow> string \<Rightarrow> string \<Rightarrow> InsertAttendance" where
  "mark sid d sess status =
     \<lparr>att_studentId = sid, att_date = d, att_session = sess, att_status = status\<rparr>"

definition award :: "int \<Rightarrow> string \<Rightarrow> string \<Rightarrow> int \<Rightarrow> InsertBehaviour" where
  "award sid ty cat pts =
     \<lparr>beh_studentId = sid, beh_type = ty, beh_category = cat, beh_points = pts, beh_notes = None\<rparr>"

text \<open>
  A tutor group of ten pupils, and the operations that create them and record 47
  absences of the first and 188 absences of each of the next four.
\<close>

definition pupil :: "nat \<Rightarrow> InsertStudent" where
  "pupil i = \<lparr>firstName = ''Pupil'', lastName = replicate i CHR ''I'', dateOfBirth = ''2012-01-01'',
     yearGroup = 7, tutorGroup = ''7A'', admissionDate = ''2023-09-01''\<rparr>"

definition pupilRow :: "nat \<Rightarrow> int \<Rightarrow> Student" where
  "pupilRow i p = \<lparr>firstName = ''Pupil'', lastName = replicate i CHR ''I'', dateOfBirth = ''2012-01-01'',
     yearGroup = 7, tutorGroup = ''7A'', admissionDate = ''2023-09-01'', student_id = int i,
     attendanceSessionsPossible = Some 188, attendanceSessionsPresent = Some p,
     behaviourPoints = Some 0\<rparr>"

definition absences :: "int \<Rightarrow> nat \<Rightarrow> op list" where
  "absences i k = replicate k (RecordAttendance 0 (mark i ''2024-05-06'' ''AM'' ''ABSENT''))"

definition tenPupils :: "op list" where
  "tenPupils = map (\<lambda>i. CreateStudent (pupil i)) [1..<11]
     @ absences 1 47 @ absences 2 188 @ absences 3 188 @ absences 4 188 @ absences 5 188"

definition tenRows :: "Student list" where
  "tenRows = [pupilRow 1 141, pupilRow 2 0, pupilRow 3 0, pupilRow 4 0, pupilRow 5 0,
              pupilRow 6 188, pupilRow 7 188, pupilRow 8 188, pupilRow 9 188, pupilRow 10 188]"

section \<open>Properties\<close>

lemmas eval_defs = run_def emptyStore_def createStudent_def recordAttendance_def
  createBehaviour_def getStudent_def absentToday_def lastMark_def orZero_def Let_def
  alice_def bob_def aliceRow_def bobRow_def mark_def award_def

subsection \<open>Lookups after an update\<close>

lemma find_map_upd:
  assumes "\<And>s. student_id (f s) = student_id s"
  shows "find (\<lambda>s. student_id s = sid) (map (\<lambda>s. if student_id s = sid then f s else s) xs)
           = map_option f (find (\<lambda>s. student_id s = sid) xs)"
  using assms by (induction xs) auto

lemma find_Some_mem: "find P xs = Some x \<Longrightarrow> x \<in> set xs"
  by (auto simp: find_Some_iff)

lemma recordAttendance_found:
  assumes "getStudent st (att_studentId r) = Some s"
  shows "\<exists>att st'. recordAttendance now r st = Inr (att, st') \<and>
     getStudent st' (att_studentId r) = Some (s\<lparr>attendanceSessionsPresent :=
        Some (max 0 (orZero (attendanceSessionsPresent s) +
           (if att_status r \<noteq> ''PRESENT'' \<and> att_status r \<noteq> ''LATE'' then - 1 else 0)))\<rparr>)"
  using assms
  by (simp add: recordAttendance_def getStudent_def Let_def find_map_upd)

lemma recordAttendance_students:
  "recordAttendance now r st = Inr (a, st') \<Longrightarrow>
   students st' = (case getStudent st (att_studentId r) of None \<Rightarrow> students st
     | Some x \<Rightarrow> map (\<lambda>s. if student_id s = att_studentId r
          then s\<lparr>attendanceSessionsPresent := Some (max 0 (orZero (attendanceSessionsPresent x) +
             (if att_status r \<noteq> ''PRESENT'' \<and> att_status r \<noteq> ''LATE'' then - 1 else 0)))\<rparr>
          else s) (students st))"
  by (auto simp: recordAttendance_def getStudent_def Let_def split: option.splits)

lemma createBehaviour_student:
  assumes "createBehaviour today now r st = Inr (b, st')"
    and "getStudent st (beh_studentId r) = Some s"
  shows "getStudent st' (beh_studentId r) =
           Some (s\<lparr>behaviourPoints := Some (orZero (behaviourPoints s) + beh_points r)\<rparr>)"
  using assms
  by (auto simp: createBehaviour_def getStudent_def Let_def find_map_upd
      split: if_splits option.splits)

subsection \<open>The attendance counters stay in range\<close>

lemma counterOk_upd:
  "counterOk s \<Longrightarrow> 0 \<le> v \<Longrightarrow> v \<le> 188 \<Longrightarrow> counterOk (s\<lparr>attendanceSessionsPresent := Some v\<rparr>)"
  by (simp add: counterOk_def)

lemma counterOk_createStudent:
  "\<forall>s\<in>set (students st). counterOk s \<Longrightarrow>
   \<forall>s\<in>set (students (snd (createStudent i st))). counterOk s"
  by (auto simp: createStudent_def Let_def counterOk_def)

lemma counterOk_recordAttendance:
  assumes inv: "\<forall>s\<in>set (students st). counterOk s"
    and res: "recordAttendance now r st = Inr (a, st')"
  shows "\<forall>s\<in>set (students st'). counterOk s"
proof (cases "getStudent st (att_studentId r)")
  case None
  with recordAttendance_students [OF res] inv show ?thesis by simp
next
  case (Some x)
  then have "x \<in> set (students st)" by (auto simp: getStudent_def dest: find_Some_mem)
  with inv have "counterOk x" by blast
  then obtain p where p: "attendanceSessionsPresent x = Some p" "0 \<le> p" "p \<le> 188"
    by (auto simp: counterOk_def split: option.splits)
  define v where "v = max 0 (orZero (attendanceSessionsPresent x) +
             (if att_status r \<noteq> ''PRESENT'' \<and> att_status r \<noteq> ''LATE'' then - 1 else 0))"
  have v: "0 \<le> v" "v \<le> 188" using p by (auto simp: v_def orZero_def)
  have "students st' = map (\<lambda>s. if student_id s = att_studentId r
          then s\<lparr>attendanceSessionsPresent := Some v\<rparr> else s) (students st)"
    using recordAttendance_students [OF res] Some by (simp add: v_def)
  then show ?thesis using inv v by (auto intro: counterOk_upd)
qed

lemma counterOk_createBehaviour:
  assumes "\<forall>s\<in>set (students st). counterOk s"
    and "createBehaviour today now r st = Inr (a, st')"
  shows "\<forall>s\<in>set (students st'). counterOk s"
  using assms
  by (auto simp: createBehaviour_def getStudent_def Let_def counterOk_def
      split: option.splits if_splits)

lemma counterOk_step:
  assumes inv: "\<forall>s\<in>set (students st). counterOk s"
  shows "\<forall>s\<in>set (students (step st x)). counterOk s"
proof (cases x)
  case (CreateStudent i)
  with inv counterOk_createStudent show ?thesis by simp
next
  case (RecordAttendance now r)
  with inv counterOk_recordAttendance show ?thesis by (auto split: sum.splits)
next
  case (CreateBehaviour today now r)
  with inv counterOk_createBehaviour show ?thesis by (auto split: sum.splits)
next
  case (DeleteStudent sid)
  with inv show ?thesis by (simp add: deleteStudent_def)
next
  case (CreateDetention r)
  with inv show ?thesis by (simp add: createDetention_def Let_def)
next
  case (UpdateDetention i u)
  with inv show ?thesis by (auto simp: updateDetention_def Let_def split: sum.splits if_splits)
next
  case (SearchStudents q y t)
  with inv show ?thesis by simp
qed

lemma counterOk_foldl:
  "\<forall>s\<in>set (students st). counterOk s \<Longrightarrow> \<forall>s\<in>set (students (foldl step st ops)). counterOk s"
  by (induction ops arbitrary: st) (auto dest: counterOk_step)

lemma counterOk_run: "\<forall>s\<in>set (students (run ops)). counterOk s"
  unfolding run_def by (rule counterOk_foldl) (simp add: emptyStore_def)

subsection \<open>Attendance marks\<close>

text \<open>
  Claim C2. For every student that exists in a store the operations can produce,
  \<open>recordAttendance\<close> succeeds; with status \<open>PRESENT\<close> or \<open>LATE\<close> it leaves the
  student's \<open>attendanceSessionsPresent\<close> as it is, and with any other status it
  lowers it by exactly 1, but not below 0.
\<close>

theorem recordAttendance_counter:
  assumes "getStudent (run ops) (att_studentId r) = Some s"
  shows "\<exists>p att st' s'.
           attendanceSessionsPresent s = Some p \<and>
           recordAttendance now r (run ops) = Inr (att, st') \<and>
           getStudent st' (att_studentId r) = Some s' \<and>
           attendanceSessionsPresent s' =
             Some (if att_status r = ''PRESENT'' \<or> att_status r = ''LATE'' then p
                   else max 0 (p - 1))"
proof -
  from assms have "s \<in> set (students (run ops))"
    by (auto simp: getStudent_def dest: find_Some_mem)
  with counterOk_run have "counterOk s" by blast
  then obtain p where p: "attendanceSessionsPresent s = Some p" "0 \<le> p"
    by (auto simp: counterOk_def split: option.splits)
  from recordAttendance_found [OF assms, of now] obtain att st' where
    res: "recordAttendance now r (run ops) = Inr (att, st')" and
    s': "getStudent st' (att_studentId r) = Some (s\<lparr>attendanceSessionsPresent :=
        Some (max 0 (orZero (attendanceSessionsPresent s) +
           (if att_status r \<noteq> ''PRESENT'' \<and> att_status r \<noteq> ''LATE'' then - 1 else 0)))\<rparr>)"
    by blast
  show ?thesis
    using p res s' by (auto simp: orZero_def)
qed

theorem recordAttendance_counter_witness:
  "getStudent (run [CreateStudent alice]) 1 = Some (aliceRow 188 0) \<and>
   (\<exists>att st' s'.
      recordAttendance 10 (mark 1 ''2024-05-06'' ''AM'' ''ABSENT'') (run [CreateStudent alice])
        = Inr (att, st') \<and>
      getStudent st' 1 = Some s' \<and> attendanceSessionsPresent s' = Some 187)"
proof -
  have h: "getStudent (run [CreateStudent alice])
             (att_studentId (mark 1 ''2024-05-06'' ''AM'' ''ABSENT'')) = Some (aliceRow 188 0)"
    by (simp add: eval_defs)
  from recordAttendance_counter [OF h, of 10] h show ?thesis
    by (auto simp: mark_def aliceRow_def)
qed

text \<open>
  Claim C10. \<open>recordAttendance\<close> changes nothing but the \<open>attendanceSessionsPresent\<close>
  field of the rows of its student: every student row keeps all other fields, the rows
  of other students are the same, the behaviour and detention tables are the same, and
  the attendance table is the old one with the new row at its end.
\<close>

theorem recordAttendance_frame:
  "recordAttendance now r st = Inr (att, st') \<Longrightarrow>
     behaviour st' = behaviour st \<and> detentions st' = detentions st \<and>
     attendance st' = attendance st @ [att] \<and>
     list_all2 (\<lambda>s s'. s'\<lparr>attendanceSessionsPresent := attendanceSessionsPresent s\<rparr> = s \<and>
                        (student_id s \<noteq> att_studentId r \<longrightarrow> s' = s))
       (students st) (students st')"
  by (auto simp: recordAttendance_def getStudent_def Let_def list_all2_map2 list_all2_same
      split: option.splits)


theorem recordAttendance_frame_witness:
  "\<exists>att st'.
     recordAttendance 10 (mark 1 ''2024-05-06'' ''AM'' ''ABSENT'')
       (run [CreateStudent alice, CreateStudent bob]) = Inr (att, st') \<and>
     behaviour st' = [] \<and> detentions st' = [] \<and> attendance st' = [att] \<and>
     students (run [CreateStudent alice, CreateStudent bob]) = [aliceRow 188 0, bobRow 188 0] \<and>
     students st' = [aliceRow 187 0, bobRow 188 0]"
proof -
  let ?st = "run [CreateStudent alice, CreateStudent bob]"
  have "\<exists>att st'. recordAttendance 10 (mark 1 ''2024-05-06'' ''AM'' ''ABSENT'') ?st = Inr (att, st') \<and>
          students st' = [aliceRow 187 0, bobRow 188 0]"
    by (simp add: eval_defs)
  then obtain att st' where
    h: "recordAttendance 10 (mark 1 ''2024-05-06'' ''AM'' ''ABSENT'') ?st = Inr (att, st')"
    and s: "students st' = [aliceRow 187 0, bobRow 188 0]" by blast
  have e: "behaviour ?st = []" "detentions ?st = []" "attendance ?st = []"
    "students ?st = [aliceRow 188 0, bobRow 188 0]"
    by (simp_all add: eval_defs)
  from recordAttendance_frame [OF h] e s h show ?thesis by simp
qed

text \<open>
  Claim C8, as the code has it. \<open>recordAttendance\<close> has no existence check that
  rejects: for a student id that identifies no student the call succeeds, appends the
  attendance row with the next key, returns it, and leaves every other table as it is.
\<close>

theorem recordAttendance_unknown_student:
  "getStudent st (att_studentId r) = None \<Longrightarrow>
   recordAttendance now r st =
     Inr (\<lparr>att_studentId = att_studentId r, att_date = att_date r,
            att_session = att_session r, att_status = att_status r,
            att_id = attendanceSeq st, att_recordedAt = Some now\<rparr>,
          st\<lparr>attendance := attendance st @
                [\<lparr>att_studentId = att_studentId r, att_date = att_date r,
                   att_session = att_session r, att_status = att_status r,
                   att_id = attendanceSeq st, att_recordedAt = Some now\<rparr>],
             attendanceSeq := attendanceSeq st + 1\<rparr>)"
  by (simp add: recordAttendance_def getStudent_def Let_def)

theorem recordAttendance_unknown_student_witness:
  "getStudent (run [CreateStudent alice]) 7 = None \<and>
   recordAttendance 10 (mark 7 ''2024-05-06'' ''AM'' ''PRESENT'') (run [CreateStudent alice]) =
     Inr (\<lparr>att_studentId = 7, att_date = ''2024-05-06'', att_session = ''AM'',
            att_status = ''PRESENT'', att_id = 1, att_recordedAt = Some 10\<rparr>,
          \<lparr>students = [aliceRow 188 0],
           attendance = [\<lparr>att_studentId = 7, att_date = ''2024-05-06'', att_session = ''AM'',
              att_status = ''PRESENT'', att_id = 1, att_recordedAt = Some 10\<rparr>],
           behaviour = [], detentions = [],
           studentsSeq = 2, attendanceSeq = 2, behaviourSeq = 1, detentionsSeq = 1\<rparr>)"
proof -
  have h: "getStudent (run [CreateStudent alice])
             (att_studentId (mark 7 ''2024-05-06'' ''AM'' ''PRESENT'')) = None"
    by (simp add: eval_defs)
  from recordAttendance_unknown_student [OF h, of 10] h show ?thesis
    by (simp add: eval_defs)
qed

text \<open>
  The claim as stated fails: on the empty store, where student 7 does not exist, the
  call resolves with the row and the row is in the attendance table.
\<close>

theorem recordAttendance_unknown_student_counterexample:
  "getStudent emptyStore 7 = None \<and>
   recordAttendance 10 (mark 7 ''2024-05-06'' ''AM'' ''ABSENT'') emptyStore =
     Inr (\<lparr>att_studentId = 7, att_date = ''2024-05-06'', att_session = ''AM'',
            att_status = ''ABSENT'', att_id = 1, att_recordedAt = Some 10\<rparr>,
          \<lparr>students = [],
           attendance = [\<lparr>att_studentId = 7, att_date = ''2024-05-06'', att_session = ''AM'',
              att_status = ''ABSENT'', att_id = 1, att_recordedAt = Some 10\<rparr>],
           behaviour = [], detentions = [],
           studentsSeq = 1, attendanceSeq = 2, behaviourSeq = 1, detentionsSeq = 1\<rparr>)"
  by (simp add: eval_defs)

text \<open>
  Claim C4. After every sequence of operations from the empty store, every student
  row has \<open>0 \<le> attendanceSessionsPresent \<le> attendanceSessionsPossible\<close>.
\<close>

theorem attendance_counter_invariant:
  "\<forall>s\<in>set (students (run ops)).
     \<exists>p q. attendanceSessionsPresent s = Some p \<and> attendanceSessionsPossible s = Some q \<and>
           0 \<le> p \<and> p \<le> q"
  using counterOk_run [of ops] by (auto simp: counterOk_def split: option.splits)

theorem attendance_counter_invariant_witness:
  "students (run [CreateStudent alice, RecordAttendance 10 (mark 1 ''2024-05-06'' ''AM'' ''ABSENT''),
                  CreateBehaviour ''2024-05-06'' 20 (award 1 ''NEGATIVE'' ''DISRUPTION'' (- 3)),
                  DeleteStudent 4, SearchStudents None None None]) = [aliceRow 187 (- 3)] \<and>
   (\<exists>p q. attendanceSessionsPresent (aliceRow 187 (- 3)) = Some p \<and>
          attendanceSessionsPossible (aliceRow 187 (- 3)) = Some q \<and> 0 \<le> p \<and> p \<le> q)"
proof -
  let ?ops = "[CreateStudent alice, RecordAttendance 10 (mark 1 ''2024-05-06'' ''AM'' ''ABSENT''),
                  CreateBehaviour ''2024-05-06'' 20 (award 1 ''NEGATIVE'' ''DISRUPTION'' (- 3)),
                  DeleteStudent 4, SearchStudents None None None]"
  have e: "students (run ?ops) = [aliceRow 187 (- 3)]"
    by (simp add: eval_defs deleteStudent_def)
  then have "aliceRow 187 (- 3) \<in> set (students (run ?ops))" by simp
  with attendance_counter_invariant [of ?ops] e show ?thesis by blast
qed

subsection \<open>Behaviour points\<close>

text \<open>
  Claim C1, at an input where the code departs from it. Alice is marked \<open>ABSENT\<close>
  today, which \<open>recordAttendance\<close> counts as an absence (her counter drops to 187);
  a positive award on the same day is accepted all the same: the row is inserted and
  her points rise to 5.
\<close>

theorem createBehaviour_absent_accepted:
  "createBehaviour ''2024-05-06'' 20 (award 1 ''POSITIVE'' ''ACHIEVEMENT'' 5)
     (run [CreateStudent alice, RecordAttendance 10 (mark 1 ''2024-05-06'' ''AM'' ''ABSENT'')])
   = Inr (\<lparr>beh_studentId = 1, beh_type = ''POSITIVE'', beh_category = ''ACHIEVEMENT'',
            beh_points = 5, beh_notes = None, beh_id = 1, beh_date = Some 20\<rparr>,
          \<lparr>students = [aliceRow 187 5],
           attendance = [\<lparr>att_studentId = 1, att_date = ''2024-05-06'', att_session = ''AM'',
              att_status = ''ABSENT'', att_id = 1, att_recordedAt = Some 10\<rparr>],
           behaviour = [\<lparr>beh_studentId = 1, beh_type = ''POSITIVE'', beh_category = ''ACHIEVEMENT'',
              beh_points = 5, beh_notes = None, beh_id = 1, beh_date = Some 20\<rparr>],
           detentions = [], studentsSeq = 2, attendanceSeq = 2, behaviourSeq = 2, detentionsSeq = 1\<rparr>)"
  by (simp add: eval_defs)

text \<open>
  The guard does fire on the two literals it tests: when the last of today's marks of
  the student has status \<open>ABSENT_UNAUTH\<close> or \<open>ABSENT_AUTH\<close>, a positive award is
  rejected and the store stays as it was.
\<close>

lemma createBehaviour_guard:
  assumes "0 < beh_points r"
    and "filter (\<lambda>a. att_studentId a = beh_studentId r \<and> att_date a = today) (attendance st)
           = ms @ [m]"
    and "att_status m = ''ABSENT_UNAUTH'' \<or> att_status m = ''ABSENT_AUTH''"
  shows "createBehaviour today now r st =
           Inl (Error ''Cannot award positive points to an absent student'')"
    and "step st (CreateBehaviour today now r) = st"
  using assms by (auto simp: createBehaviour_def absentToday_def lastMark_def)

text \<open>
  Claim C3, as the code has it. A successful \<open>createBehaviour\<close> returns the inserted
  row and nothing else: the record's fields with the next key and the clock reading,
  whatever the student's total is. It appends that row, creates no detention, and sets
  the student's \<open>behaviourPoints\<close> to the old total plus the points; a total of -10 or
  less raises no signal.
\<close>

theorem createBehaviour_no_signal:
  assumes "createBehaviour today now r st = Inr (b, st')"
  shows "b = \<lparr>beh_studentId = beh_studentId r, beh_type = beh_type r,
               beh_category = beh_category r, beh_points = beh_points r,
               beh_notes = beh_notes r, beh_id = behaviourSeq st, beh_date = Some now\<rparr> \<and>
         behaviour st' = behaviour st @ [b] \<and> detentions st' = detentions st \<and>
         (\<forall>s. getStudent st (beh_studentId r) = Some s \<longrightarrow>
              getStudent st' (beh_studentId r) =
                Some (s\<lparr>behaviourPoints := Some (orZero (behaviourPoints s) + beh_points r)\<rparr>))"
proof -
  have "getStudent st' (beh_studentId r) =
          Some (s\<lparr>behaviourPoints := Some (orZero (behaviourPoints s) + beh_points r)\<rparr>)"
    if "getStudent st (beh_studentId r) = Some s" for s
    using createBehaviour_student [OF assms that] .
  moreover have "b = \<lparr>beh_studentId = beh_studentId r, beh_type = beh_type r,
               beh_category = beh_category r, beh_points = beh_points r,
               beh_notes = beh_notes r, beh_id = behaviourSeq st, beh_date = Some now\<rparr> \<and>
         behaviour st' = behaviour st @ [b] \<and> detentions st' = detentions st"
    using assms
    by (auto simp: createBehaviour_def Let_def split: if_splits option.splits)
  ultimately show ?thesis by blast
qed

theorem createBehaviour_no_signal_witness:
  "\<exists>st'. createBehaviour ''2024-05-06'' 20 (award 1 ''NEGATIVE'' ''DISRUPTION'' (- 10))
            (run [CreateStudent alice])
          = Inr (\<lparr>beh_studentId = 1, beh_type = ''NEGATIVE'', beh_category = ''DISRUPTION'',
                   beh_points = - 10, beh_notes = None, beh_id = 1, beh_date = Some 20\<rparr>, st') \<and>
        getStudent (run [CreateStudent alice]) 1 = Some (aliceRow 188 0) \<and>
        getStudent st' 1 = Some (aliceRow 188 (- 10)) \<and> detentions st' = []"
proof -
  let ?st = "run [CreateStudent alice]"
  let ?r = "award 1 ''NEGATIVE'' ''DISRUPTION'' (- 10)"
  have "\<exists>b st'. createBehaviour ''2024-05-06'' 20 ?r ?st = Inr (b, st')"
    by (simp add: eval_defs)
  then obtain b st' where h: "createBehaviour ''2024-05-06'' 20 ?r ?st = Inr (b, st')" by blast
  have g: "getStudent ?st (beh_studentId ?r) = Some (aliceRow 188 0)" "detentions ?st = []"
    "behaviourSeq ?st = 1"
    by (simp_all add: eval_defs)
  from createBehaviour_no_signal [OF h] g h show ?thesis
    by (simp add: award_def aliceRow_def orZero_def)
qed

text \<open>
  The claim as stated fails. The same award of -10 points is made in two stores: in the
  first Alice has 0 points and ends at -10, in the second she has 5 and ends at -5. The
  caller gets the same value in both, so nothing it receives tells the two apart.
\<close>

theorem createBehaviour_no_signal_counterexample:
  "map_sum id fst
     (createBehaviour ''2024-05-06'' 30 (award 1 ''NEGATIVE'' ''DISRUPTION'' (- 10))
        (run [CreateStudent alice, CreateBehaviour ''2024-05-06'' 20 (award 1 ''POSITIVE'' ''NOTE'' 0)]))
   = Inr \<lparr>beh_studentId = 1, beh_type = ''NEGATIVE'', beh_category = ''DISRUPTION'',
          beh_points = - 10, beh_notes = None, beh_id = 2, beh_date = Some 30\<rparr> \<and>
   map_sum id fst
     (createBehaviour ''2024-05-06'' 30 (award 1 ''NEGATIVE'' ''DISRUPTION'' (- 10))
        (run [CreateStudent alice, CreateBehaviour ''2024-05-06'' 20 (award 1 ''POSITIVE'' ''NOTE'' 5)]))
   = Inr \<lparr>beh_studentId = 1, beh_type = ''NEGATIVE'', beh_category = ''DISRUPTION'',
          beh_points = - 10, beh_notes = None, beh_id = 2, beh_date = Some 30\<rparr> \<and>
   students (run [CreateStudent alice, CreateBehaviour ''2024-05-06'' 20 (award 1 ''POSITIVE'' ''NOTE'' 0),
                  CreateBehaviour ''2024-05-06'' 30 (award 1 ''NEGATIVE'' ''DISRUPTION'' (- 10))])
     = [aliceRow 188 (- 10)] \<and>
   students (run [CreateStudent alice, CreateBehaviour ''2024-05-06'' 20 (award 1 ''POSITIVE'' ''NOTE'' 5),
                  CreateBehaviour ''2024-05-06'' 30 (award 1 ''NEGATIVE'' ''DISRUPTION'' (- 10))])
     = [aliceRow 188 (- 5)] \<and>
   detentions (run [CreateStudent alice, CreateBehaviour ''2024-05-06'' 20 (award 1 ''POSITIVE'' ''NOTE'' 0),
                  CreateBehaviour ''2024-05-06'' 30 (award 1 ''NEGATIVE'' ''DISRUPTION'' (- 10))])
     = []"
  by (simp add: eval_defs)

lemma createBehaviours_student:
  assumes "createBehaviours calls st = Inr st'"
    and "\<forall>c\<in>set calls. beh_studentId (snd (snd c)) = sid"
    and "getStudent st sid = Some s"
  shows "getStudent st' sid =
     Some (s\<lparr>behaviourPoints := (if calls = [] then behaviourPoints s
                                  else Some (orZero (behaviourPoints s) + sum_list (pointsOf calls)))\<rparr>)"
  using assms
proof (induction calls arbitrary: st s)
  case Nil
  then show ?case by simp
next
  case (Cons c calls)
  obtain today now r where c: "c = (today, now, r)" by (cases c)
  from Cons.prems(1) c obtain b st1 where
    one: "createBehaviour today now r st = Inr (b, st1)" and rest: "createBehaviours calls st1 = Inr st'"
    by (auto split: sum.splits)
  from Cons.prems(2) c have sid: "beh_studentId r = sid" by simp
  from createBehaviour_student [OF one] sid Cons.prems(3)
  have s1: "getStudent st1 sid =
              Some (s\<lparr>behaviourPoints := Some (orZero (behaviourPoints s) + beh_points r)\<rparr>)"
    by simp
  from Cons.IH [OF rest _ s1] Cons.prems(2)
  show ?case by (simp add: c pointsOf_def orZero_def)
qed

text \<open>
  Claim C5. A run of successful \<open>createBehaviour\<close> calls for one student changes the
  student's \<open>behaviourPoints\<close> (\<open>null\<close> read as 0, as the code reads it) by exactly the
  sum of the points, and every reordering of the calls that succeeds leaves the student
  with the same row.
\<close>

theorem behaviourPoints_sum_commutes:
  assumes "createBehaviours calls st = Inr st'"
    and "\<forall>c\<in>set calls. beh_studentId (snd (snd c)) = sid"
    and "getStudent st sid = Some s"
  shows "\<exists>s'. getStudent st' sid = Some s' \<and>
           orZero (behaviourPoints s') = orZero (behaviourPoints s) + sum_list (pointsOf calls) \<and>
           (\<forall>calls2 st2. mset calls2 = mset calls \<and> createBehaviours calls2 st = Inr st2 \<longrightarrow>
                getStudent st2 sid = Some s')"
proof -
  let ?s' = "s\<lparr>behaviourPoints := (if calls = [] then behaviourPoints s
                                  else Some (orZero (behaviourPoints s) + sum_list (pointsOf calls)))\<rparr>"
  have 1: "getStudent st' sid = Some ?s'"
    by (rule createBehaviours_student [OF assms])
  have 2: "orZero (behaviourPoints ?s') = orZero (behaviourPoints s) + sum_list (pointsOf calls)"
    by (simp add: orZero_def pointsOf_def)
  have 3: "getStudent st2 sid = Some ?s'"
    if p: "mset calls2 = mset calls" and r: "createBehaviours calls2 st = Inr st2" for calls2 st2
  proof -
    from p have "set calls2 = set calls" by (metis set_mset_mset)
    with assms(2) have a: "\<forall>c\<in>set calls2. beh_studentId (snd (snd c)) = sid" by simp
    have "mset (pointsOf calls2) = mset (pointsOf calls)"
      unfolding pointsOf_def using p by (metis mset_map)
    then have "sum_list (pointsOf calls2) = sum_list (pointsOf calls)"
      by (metis sum_mset_sum_list)
    moreover have "calls2 = [] \<longleftrightarrow> calls = []" using p by (metis mset_zero_iff)
    ultimately show ?thesis
      using createBehaviours_student [OF r a assms(3)] by simp
  qed
  from 1 2 3 show ?thesis by blast
qed

theorem behaviourPoints_sum_commutes_witness:
  "\<exists>st' st2.
     createBehaviours [(''2024-05-06'', 20, award 1 ''POSITIVE'' ''ACHIEVEMENT'' 3),
                       (''2024-05-06'', 30, award 1 ''NEGATIVE'' ''HOMEWORK'' (- 5))]
       (run [CreateStudent alice]) = Inr st' \<and>
     createBehaviours [(''2024-05-06'', 30, award 1 ''NEGATIVE'' ''HOMEWORK'' (- 5)),
                       (''2024-05-06'', 20, award 1 ''POSITIVE'' ''ACHIEVEMENT'' 3)]
       (run [CreateStudent alice]) = Inr st2 \<and>
     getStudent (run [CreateStudent alice]) 1 = Some (aliceRow 188 0) \<and>
     getStudent st' 1 = Some (aliceRow 188 (- 2)) \<and>
     getStudent st2 1 = Some (aliceRow 188 (- 2))"
proof -
  let ?st = "run [CreateStudent alice]"
  let ?a = "(''2024-05-06'', 20, award 1 ''POSITIVE'' ''ACHIEVEMENT'' 3)"
  let ?b = "(''2024-05-06'', 30, award 1 ''NEGATIVE'' ''HOMEWORK'' (- 5))"
  have "\<exists>st'. createBehaviours [?a, ?b] ?st = Inr st' \<and> getStudent st' 1 = Some (aliceRow 188 (- 2))"
    by (simp add: eval_defs)
  then obtain st' where h1: "createBehaviours [?a, ?b] ?st = Inr st'"
    and g1: "getStudent st' 1 = Some (aliceRow 188 (- 2))" by blast
  have "\<exists>st2. createBehaviours [?b, ?a] ?st = Inr st2"
    by (simp add: eval_defs)
  then obtain st2 where h2: "createBehaviours [?b, ?a] ?st = Inr st2" by blast
  have h3: "\<forall>c\<in>set [?a, ?b]. beh_studentId (snd (snd c)) = 1" by (simp add: award_def)
  have h4: "getStudent ?st 1 = Some (aliceRow 188 0)" by (simp add: eval_defs)
  have m: "mset [?b, ?a] = mset [?a, ?b]" by (simp add: add.commute)
  from behaviourPoints_sum_commutes [OF h1 h3 h4] obtain s' where
    s: "getStudent st' 1 = Some s'" and
    c: "\<forall>calls2 st2. mset calls2 = mset [?a, ?b] \<and> createBehaviours calls2 ?st = Inr st2 \<longrightarrow>
                getStudent st2 1 = Some s'" by blast
  from c m h2 have "getStudent st2 1 = Some s'" by blast
  with s g1 h1 h2 h4 show ?thesis by auto
qed

subsection \<open>Searching students\<close>

lemma likeMatch_percent_all: "likeMatch [CHR ''%''] t"
  by (induction t) auto

lemma likeMatch_plain:
  "noWildcards q \<Longrightarrow> likeMatch (q @ p) t \<longleftrightarrow> (\<exists>t'. t = q @ t' \<and> likeMatch p t')"
proof (induction q arbitrary: t)
  case Nil
  then show ?case by simp
next
  case (Cons c q)
  then have c: "c \<noteq> CHR ''%''" "c \<noteq> CHR ''_''" "c \<noteq> CHR 0x5C" and q: "noWildcards q"
    by (auto simp: noWildcards_def)
  show ?case
  proof (cases t)
    case Nil
    with c show ?thesis by simp
  next
    case (Cons x t1)
    with c Cons.IH [OF q, of t1] show ?thesis by auto
  qed
qed

lemma likeMatch_percent:
  "likeMatch (CHR ''%'' # p) t \<longleftrightarrow> (\<exists>ps ts. t = ps @ ts \<and> likeMatch p ts)"
proof (induction t)
  case Nil
  then show ?case by simp
next
  case (Cons x t)
  show ?case
  proof
    assume "likeMatch (CHR ''%'' # p) (x # t)"
    then consider "likeMatch p (x # t)" | "likeMatch (CHR ''%'' # p) t" by auto
    then show "\<exists>ps ts. x # t = ps @ ts \<and> likeMatch p ts"
    proof cases
      case 1
      then have "x # t = [] @ (x # t) \<and> likeMatch p (x # t)" by simp
      then show ?thesis by blast
    next
      case 2
      with Cons.IH obtain ps ts where "t = ps @ ts" "likeMatch p ts" by blast
      then have "x # t = (x # ps) @ ts \<and> likeMatch p ts" by simp
      then show ?thesis by blast
    qed
  next
    assume "\<exists>ps ts. x # t = ps @ ts \<and> likeMatch p ts"
    then obtain ps ts where e: "x # t = ps @ ts" and m: "likeMatch p ts" by blast
    show "likeMatch (CHR ''%'' # p) (x # t)"
    proof (cases ps)
      case Nil
      with e m show ?thesis by auto
    next
      case (Cons y ps')
      with e have "t = ps' @ ts" by simp
      with m Cons.IH have "likeMatch (CHR ''%'' # p) t" by blast
      then show ?thesis by simp
    qed
  qed
qed

lemma likeMatch_contains:
  assumes "noWildcards q"
  shows "likeMatch (''%'' @ q @ ''%'') t \<longleftrightarrow> sublist q t"
proof -
  have "likeMatch (''%'' @ q @ ''%'') t \<longleftrightarrow> (\<exists>ps ts. t = ps @ ts \<and> likeMatch (q @ ''%'') ts)"
    using likeMatch_percent [of "q @ ''%''" t] by simp
  also have "\<dots> \<longleftrightarrow> (\<exists>ps ts. t = ps @ ts \<and> (\<exists>t'. ts = q @ t'))"
    using likeMatch_plain [OF assms, of "''%''"] likeMatch_percent_all by simp
  also have "\<dots> \<longleftrightarrow> sublist q t"
    by (auto simp: sublist_def)
  finally show ?thesis .
qed

lemma asciiLowerChar_plain:
  "c \<noteq> CHR ''%'' \<and> c \<noteq> CHR ''_'' \<and> c \<noteq> CHR 0x5C \<Longrightarrow>
   asciiLowerChar c \<noteq> CHR ''%'' \<and> asciiLowerChar c \<noteq> CHR ''_'' \<and> asciiLowerChar c \<noteq> CHR 0x5C"
proof (cases "65 \<le> (of_char c :: nat) \<and> (of_char c :: nat) \<le> 90")
  case False
  assume "c \<noteq> CHR ''%'' \<and> c \<noteq> CHR ''_'' \<and> c \<noteq> CHR 0x5C"
  with False show ?thesis by (auto simp: asciiLowerChar_def Let_def)
next
  case True
  let ?n = "of_char c :: nat"
  have l: "asciiLowerChar c = char_of (?n + 32)" using True by (simp add: asciiLowerChar_def Let_def)
  have "(of_char (asciiLowerChar c) :: nat) = (?n + 32) mod 256"
    unfolding l by (rule of_char_of)
  with True have v: "(of_char (asciiLowerChar c) :: nat) = ?n + 32" by simp
  have "(of_char (asciiLowerChar c) :: nat) \<noteq> of_char (CHR ''%'')"
    "(of_char (asciiLowerChar c) :: nat) \<noteq> of_char (CHR ''_'')"
    "(of_char (asciiLowerChar c) :: nat) \<noteq> of_char (CHR 0x5C)"
    using True unfolding v by simp_all
  then show ?thesis by auto
qed

lemma noWildcards_asciiLower: "noWildcards q \<Longrightarrow> noWildcards (asciiLower q)"
  unfolding noWildcards_def asciiLower_def using asciiLowerChar_plain by (induction q) simp_all

lemma isAscii_fullName:
  "isAscii f \<Longrightarrow> isAscii l \<Longrightarrow> isAscii (f @ '' '' @ l)"
  by (auto simp: isAscii_def)

lemma descById_filter: "descById (filter P xs) = filter P (descById xs)"
  by (simp add: descById_def filter_sort [symmetric] rev_filter)

lemma descById_sorted: "sorted (rev (map student_id (descById xs)))"
  by (simp add: descById_def rev_map)

lemma getStudents_members: "set (getStudents st) = set (students st)"
  by (simp add: getStudents_def descById_def)

lemma searchStudents_conditions:
  assumes js: "\<forall>t. isAscii t \<longrightarrow> toLowerCase t = asciiLower t"
    and pg: "\<forall>t. isAscii t \<longrightarrow> lower t = asciiLower t"
    and q: "case query of None \<Rightarrow> True
            | Some q \<Rightarrow> q = [] \<or> noWildcards q \<and> isAscii q \<and> asciiNames st"
    and s: "s \<in> set (students st)"
  shows "list_all (\<lambda>c. c (s :: Student))
          ((case query of
               None \<Rightarrow> []
             | Some q \<Rightarrow>
                 if q \<noteq> []
                 then [\<lambda>s. likeMatch (''%'' @ toLowerCase q @ ''%'')
                               (lower (firstName s @ '' '' @ lastName s))]
                 else [])
          @ (case year of
               None \<Rightarrow> []
             | Some y \<Rightarrow> if y \<noteq> 0 then [\<lambda>s. yearGroup s = y] else [])
          @ (case tutor of
               None \<Rightarrow> []
             | Some g \<Rightarrow> if g \<noteq> [] then [\<lambda>s. tutorGroup s = g] else []))
         = specMatches query year tutor s"
proof -
  have c1: "list_all (\<lambda>c. c s) (case query of
               None \<Rightarrow> []
             | Some q \<Rightarrow>
                 if q \<noteq> []
                 then [\<lambda>s. likeMatch (''%'' @ toLowerCase q @ ''%'')
                               (lower (firstName s @ '' '' @ lastName s))]
                 else [])
          = (case query of None \<Rightarrow> True
      | Some q \<Rightarrow> q = [] \<or> sublist (asciiLower q) (asciiLower (firstName s @ '' '' @ lastName s)))"
  proof (cases query)
    case None
    then show ?thesis by simp
  next
    case (Some x)
    show ?thesis
    proof (cases "x = []")
      case True
      with Some show ?thesis by simp
    next
      case False
      with q Some have x: "noWildcards x" "isAscii x" and n: "asciiNames st" by simp_all
      from n s have "isAscii (firstName s @ '' '' @ lastName s)"
        by (intro isAscii_fullName) (simp_all add: asciiNames_def)
      with pg have low: "lower (firstName s @ '' '' @ lastName s)
                           = asciiLower (firstName s @ '' '' @ lastName s)" by blast
      from js x(2) have up: "toLowerCase x = asciiLower x" by blast
      have "likeMatch (''%'' @ asciiLower x @ ''%'') (asciiLower (firstName s @ '' '' @ lastName s))
              = sublist (asciiLower x) (asciiLower (firstName s @ '' '' @ lastName s))"
        by (rule likeMatch_contains [OF noWildcards_asciiLower [OF x(1)]])
      with Some False low up show ?thesis by simp
    qed
  qed
  have c2: "list_all (\<lambda>c. c s) (case year of
               None \<Rightarrow> []
             | Some y \<Rightarrow> if y \<noteq> 0 then [\<lambda>s. yearGroup s = y] else [])
          = (case year of None \<Rightarrow> True | Some y \<Rightarrow> y = 0 \<or> yearGroup s = y)"
    by (cases year) simp_all
  have c3: "list_all (\<lambda>c. c s) (case tutor of
               None \<Rightarrow> []
             | Some g \<Rightarrow> if g \<noteq> [] then [\<lambda>s. tutorGroup s = g] else [])
          = (case tutor of None \<Rightarrow> True | Some g \<Rightarrow> g = [] \<or> tutorGroup s = g)"
    by (cases tutor) simp_all
  show ?thesis
    unfolding list_all_append c1 c2 c3 specMatches_def by simp
qed

text \<open>
  Claim C9, as the code has it, on ASCII text. Let the two lower-casings agree on ASCII
  text with the lower-casing of the letters \<open>A\<close> to \<open>Z\<close>, as JavaScript's
  \<open>toLowerCase\<close> does and PostgreSQL's \<open>lower()\<close> does in a locale that has no other
  rule for these letters. For a query that is ASCII text free of the \<open>LIKE\<close>
  wildcards, in a store whose student names are ASCII text, \<open>searchStudents\<close> returns
  exactly the students of the roster that satisfy the conjunction of the filters
  supplied with a truthy value (a filter given as the empty string or as 0 counts as not
  supplied), in the order of the roster, which is by descending id; with no filter it
  returns the whole roster; the store is not changed. Without a query, nothing is asked
  of the names.
\<close>

theorem searchStudents_filters:
  assumes js: "\<forall>t. isAscii t \<longrightarrow> toLowerCase t = asciiLower t"
    and pg: "\<forall>t. isAscii t \<longrightarrow> lower t = asciiLower t"
    and q: "case query of None \<Rightarrow> True
            | Some q \<Rightarrow> q = [] \<or> noWildcards q \<and> isAscii q \<and> asciiNames st"
  shows "searchStudents toLowerCase lower query year tutor st
           = filter (specMatches query year tutor) (getStudents st) \<and>
         sorted (rev (map student_id (searchStudents toLowerCase lower query year tutor st))) \<and>
         searchStudents toLowerCase lower None None None st = getStudents st \<and>
         step st (SearchStudents query year tutor) = st"
proof -
  define conditions where "conditions =
          (case query of
               None \<Rightarrow> []
             | Some q \<Rightarrow>
                 if q \<noteq> []
                 then [\<lambda>s :: Student. likeMatch (''%'' @ toLowerCase q @ ''%'')
                               (lower (firstName s @ '' '' @ lastName s))]
                 else [])
          @ (case year of
               None \<Rightarrow> []
             | Some y \<Rightarrow> if y \<noteq> 0 then [\<lambda>s. yearGroup s = y] else [])
          @ (case tutor of
               None \<Rightarrow> []
             | Some g \<Rightarrow> if g \<noteq> [] then [\<lambda>s. tutorGroup s = g] else [])"
  have pt: "list_all (\<lambda>c. c s) conditions = specMatches query year tutor s"
    if "s \<in> set (students st)" for s
    unfolding conditions_def by (rule searchStudents_conditions [OF js pg q that])
  have unf: "searchStudents toLowerCase lower query year tutor st =
      (if length conditions = 0 then getStudents st
       else descById (filter (\<lambda>s. list_all (\<lambda>c. c s) conditions) (students st)))"
    unfolding searchStudents_def conditions_def Let_def ..
  have "searchStudents toLowerCase lower query year tutor st
          = filter (\<lambda>s. list_all (\<lambda>c. c s) conditions) (getStudents st)"
  proof (cases "length conditions = 0")
    case True
    then have "conditions = []" by simp
    with unf show ?thesis by simp
  next
    case False
    with unf show ?thesis by (simp add: getStudents_def descById_filter)
  qed
  also have "\<dots> = filter (specMatches query year tutor) (getStudents st)"
    by (rule filter_cong) (simp_all add: getStudents_members pt)
  finally have 1: "searchStudents toLowerCase lower query year tutor st
                     = filter (specMatches query year tutor) (getStudents st)" .
  have 2: "sorted (rev (map student_id (searchStudents toLowerCase lower query year tutor st)))"
    unfolding 1 getStudents_def descById_filter [symmetric] by (rule descById_sorted)
  have 3: "searchStudents toLowerCase lower None None None st = getStudents st"
    by (simp add: searchStudents_def)
  from 1 2 3 show ?thesis by simp
qed

theorem searchStudents_filters_witness:
  "noWildcards ''CE aR'' \<and> isAscii ''CE aR'' \<and>
   asciiNames (run [CreateStudent alice, CreateStudent bob]) \<and>
   searchStudents asciiLower asciiLower (Some ''CE aR'') (Some 7) (Some ''7A'')
     (run [CreateStudent alice, CreateStudent bob]) = [aliceRow 188 0] \<and>
   filter (specMatches (Some ''CE aR'') (Some 7) (Some ''7A''))
     (getStudents (run [CreateStudent alice, CreateStudent bob])) = [aliceRow 188 0] \<and>
   searchStudents asciiLower asciiLower None None None (run [CreateStudent alice, CreateStudent bob])
     = [bobRow 188 0, aliceRow 188 0]"
proof -
  let ?st = "run [CreateStudent alice, CreateStudent bob]"
  have a: "noWildcards ''CE aR''" "isAscii ''CE aR''" "asciiNames ?st"
    by code_simp+
  have h: "case Some ''CE aR'' of None \<Rightarrow> True
           | Some q \<Rightarrow> q = [] \<or> noWildcards q \<and> isAscii q \<and> asciiNames ?st"
    using a by simp
  have l: "\<forall>t. isAscii t \<longrightarrow> asciiLower t = asciiLower t" by simp
  have e: "searchStudents asciiLower asciiLower (Some ''CE aR'') (Some 7) (Some ''7A'') ?st
             = [aliceRow 188 0]"
    by code_simp
  have g: "getStudents ?st = [bobRow 188 0, aliceRow 188 0]"
    by code_simp
  from searchStudents_filters [OF l l h, of "Some 7" "Some ''7A''"] e g a show ?thesis
    by simp
qed

text \<open>
  The claim as stated fails for a year group of 0 and for an empty tutor group, which
  are ignored instead of compared, and for a query with a wildcard: \<open>_\<close> is no
  substring of Alice's name, yet it matches. All text of this input is ASCII, where the
  program's two lower-casings are \<open>asciiLower\<close>.
\<close>

theorem searchStudents_filters_counterexample:
  "searchStudents asciiLower asciiLower None (Some 0) None (run [CreateStudent alice])
     = [aliceRow 188 0] \<and>
   yearGroup (aliceRow 188 0) \<noteq> 0 \<and>
   searchStudents asciiLower asciiLower None None (Some '''') (run [CreateStudent alice])
     = [aliceRow 188 0] \<and>
   tutorGroup (aliceRow 188 0) \<noteq> '''' \<and>
   searchStudents asciiLower asciiLower (Some ''_'') None None (run [CreateStudent alice])
     = [aliceRow 188 0] \<and>
   \<not> sublist (asciiLower ''_'')
         (asciiLower (firstName (aliceRow 188 0) @ '' '' @ lastName (aliceRow 188 0)))"
  by code_simp

subsection \<open>Today's attendance percentage\<close>

text \<open>With no students the percentage is 0: the function returns before it divides.\<close>

lemma getAttendancePercentageToday_no_students:
  "students st = [] \<Longrightarrow> getAttendancePercentageToday today st = 0"
  by (simp add: getAttendancePercentageToday_def getStudents_def descById_def)

text \<open>
  Claim C6, at an input where the code departs from it. The numerator is the number of
  attendance rows of today with status \<open>PRESENT\<close> or \<open>LATE\<close>, not the number of
  students that have one. Alice, the only student, is marked present in the morning and
  in the afternoon: one student of one has a mark, which is 100 percent, and the
  function returns 200.
\<close>

theorem getAttendancePercentageToday_counts_marks:
  "getStudents (run [CreateStudent alice,
                     RecordAttendance 10 (mark 1 ''2024-05-06'' ''AM'' ''PRESENT''),
                     RecordAttendance 11 (mark 1 ''2024-05-06'' ''PM'' ''PRESENT'')])
     = [aliceRow 188 0] \<and>
   getAttendancePercentageToday ''2024-05-06''
     (run [CreateStudent alice,
           RecordAttendance 10 (mark 1 ''2024-05-06'' ''AM'' ''PRESENT''),
           RecordAttendance 11 (mark 1 ''2024-05-06'' ''PM'' ''PRESENT'')]) = 200"
  by code_simp

subsection \<open>Accuracy of the double-precision percentage\<close>

lemma roundHalfEven_near:
  assumes "0 < d"
  shows "\<bar>real_of_int (roundHalfEven n d) - of_int n / of_int d\<bar> \<le> 1 / 2"
proof -
  define q where "q = n div d"
  define r where "r = n mod d"
  have n: "n = q * d + r" by (simp add: q_def r_def)
  have r: "0 \<le> r" "r < d" using assms by (simp_all add: r_def)
  have frac: "of_int n / of_int d = real_of_int q + of_int r / of_int d"
    using assms by (simp add: n field_simps)
  have lo: "2 * r \<le> d \<Longrightarrow> real_of_int r / of_int d \<le> 1 / 2"
  proof -
    assume "2 * r \<le> d"
    then have "real_of_int (2 * r) \<le> of_int d" by (simp only: of_int_le_iff)
    then show ?thesis using assms by (simp add: field_simps)
  qed
  have hi: "d \<le> 2 * r \<Longrightarrow> 1 / 2 \<le> real_of_int r / of_int d"
  proof -
    assume "d \<le> 2 * r"
    then have "real_of_int d \<le> of_int (2 * r)" by (simp only: of_int_le_iff)
    then show ?thesis using assms by (simp add: field_simps)
  qed
  have r0: "0 \<le> real_of_int r / of_int d" using r assms by simp
  have r1: "real_of_int r / of_int d < 1" using r assms by simp
  have "roundHalfEven n d = q \<and> 2 * r \<le> d \<or> roundHalfEven n d = q + 1 \<and> d \<le> 2 * r"
    by (auto simp: roundHalfEven_def Let_def q_def r_def)
  then show ?thesis
    using lo hi r0 r1 unfolding frac by auto
qed

lemma expDown_range:
  "0 < n \<Longrightarrow> 0 < d \<Longrightarrow> n < 2 ^ 53 * d \<Longrightarrow>
   2 ^ 52 * d \<le> n * 2 ^ expDown n d \<and> n * 2 ^ expDown n d < 2 ^ 53 * d"
proof (induction n d rule: expDown.induct)
  case (1 n d)
  show ?case
  proof (cases "n < 2 ^ 52 * d")
    case True
    with "1.prems" have e: "expDown n d = Suc (expDown (2 * n) d)"
      by (subst expDown.simps) simp
    from True "1.prems" have "2 * n < 2 ^ 53 * d" by simp
    with "1.IH" True "1.prems" have
      "2 ^ 52 * d \<le> 2 * n * 2 ^ expDown (2 * n) d \<and> 2 * n * 2 ^ expDown (2 * n) d < 2 ^ 53 * d"
      by simp
    then show ?thesis unfolding e by (simp add: mult_ac)
  next
    case False
    then have "expDown n d = 0" by (subst expDown.simps) simp
    with False "1.prems" show ?thesis by simp
  qed
qed

lemma expDown_zero: "2 ^ 52 * d \<le> n \<Longrightarrow> expDown n d = 0"
  by (subst expDown.simps) simp

lemma expUp_zero: "n < 2 ^ 53 * d \<Longrightarrow> expUp n d = 0"
  by (subst expUp.simps) simp

lemma expUp_range:
  "0 < d \<Longrightarrow> 2 ^ 52 * d \<le> n \<Longrightarrow>
   2 ^ 52 * (d * 2 ^ expUp n d) \<le> n \<and> n < 2 ^ 53 * (d * 2 ^ expUp n d)"
proof (induction n d rule: expUp.induct)
  case (1 n d)
  show ?case
  proof (cases "2 ^ 53 * d \<le> n")
    case True
    with "1.prems" have e: "expUp n d = Suc (expUp n (2 * d))"
      by (subst expUp.simps) simp
    from True "1.prems" have "2 ^ 52 * (2 * d) \<le> n" by simp
    with "1.IH" True "1.prems" have
      "2 ^ 52 * (2 * d * 2 ^ expUp n (2 * d)) \<le> n \<and> n < 2 ^ 53 * (2 * d * 2 ^ expUp n (2 * d))"
      by simp
    then show ?thesis unfolding e by (simp add: mult_ac)
  next
    case False
    then have "expUp n d = 0" by (subst expUp.simps) simp
    with False "1.prems" show ?thesis by simp
  qed
qed

lemma scaled_range:
  assumes "0 < n" "0 < d"
  shows "2 ^ 52 * (d * 2 ^ expUp n d) \<le> n * 2 ^ expDown n d \<and>
         n * 2 ^ expDown n d < 2 ^ 53 * (d * 2 ^ expUp n d)"
proof (cases "2 ^ 52 * d \<le> n")
  case True
  with expUp_range [OF assms(2) True] expDown_zero [OF True] show ?thesis by simp
next
  case False
  then have lt: "n < 2 ^ 52 * d" by simp
  with assms have "n < 2 ^ 53 * d" by simp
  from expDown_range [OF assms this] expUp_zero [OF this] show ?thesis by simp
qed


lemma nearestDouble_pos_error:
  assumes "0 < n" "0 < d"
  shows "\<bar>doubleValue (nearestDouble n d) - of_int n / of_int d\<bar>
           \<le> (of_int n / of_int d) / 2 ^ 53"
proof -
  define up where "up = expUp n d"
  define down where "down = expDown n d"
  define N where "N = n * 2 ^ down"
  define D where "D = d * 2 ^ up"
  define m where "m = roundHalfEven N D"
  define s :: real where "s = 2 ^ up / 2 ^ down"
  have D: "0 < D" using assms by (simp add: D_def)
  have rng: "2 ^ 52 * D \<le> N" using scaled_range [OF assms] by (simp add: N_def D_def up_def down_def)
  have nd: "nearestDouble n d = (m, int up - int down)"
    using assms by (simp add: nearestDouble_def Let_def m_def N_def D_def up_def down_def)
  have pw: "2 powr (real up - real down) = s"
    by (simp add: s_def powr_diff powr_realpow)
  have val: "doubleValue (nearestDouble n d) = of_int m * s"
    unfolding nd doubleValue_def by (simp add: pw)
  have s: "0 < s" by (simp add: s_def)
  have q: "real_of_int n / of_int d = (of_int N / of_int D) * s"
    using assms by (simp add: N_def D_def s_def field_simps)
  have near: "\<bar>real_of_int m - of_int N / of_int D\<bar> \<le> 1 / 2"
    unfolding m_def by (rule roundHalfEven_near [OF D])
  have "real_of_int (2 ^ 52 * D) \<le> of_int N" using rng by (simp only: of_int_le_iff)
  then have big: "2 ^ 52 \<le> real_of_int N / of_int D" using D by (simp add: field_simps)
  have "1 / 2 \<le> (real_of_int N / of_int D) / 2 ^ 53" using big by simp
  with near have "\<bar>real_of_int m - of_int N / of_int D\<bar> \<le> (real_of_int N / of_int D) / 2 ^ 53"
    by simp
  then have "\<bar>real_of_int m - of_int N / of_int D\<bar> * s \<le> (real_of_int N / of_int D) / 2 ^ 53 * s"
    using s by (simp only: mult_le_cancel_right_pos)
  moreover have "\<bar>real_of_int m * s - (of_int N / of_int D) * s\<bar> = \<bar>real_of_int m - of_int N / of_int D\<bar> * s"
  proof -
    have "real_of_int m * s - (of_int N / of_int D) * s = (real_of_int m - of_int N / of_int D) * s"
      by (simp only: left_diff_distrib)
    moreover have "\<bar>s\<bar> = s" using s by simp
    ultimately show ?thesis by (simp only: abs_mult)
  qed
  ultimately show ?thesis unfolding val q by (simp only: times_divide_eq_left)
qed

lemma nearestDouble_error:
  assumes "0 \<le> n" "0 < d"
  shows "\<bar>doubleValue (nearestDouble n d) - of_int n / of_int d\<bar>
           \<le> (of_int n / of_int d) / 2 ^ 53"
proof (cases "n = 0")
  case True
  then show ?thesis by (simp add: nearestDouble_def doubleValue_def)
next
  case False
  with assms have "0 < n" by simp
  from nearestDouble_pos_error [OF this assms(2)] show ?thesis .
qed

lemma roundHalfEven_nonneg: "0 \<le> n \<Longrightarrow> 0 < d \<Longrightarrow> 0 \<le> roundHalfEven n d"
proof -
  assume "0 \<le> n" "0 < d"
  then have "0 \<le> n div d" by (simp add: pos_imp_zdiv_nonneg_iff)
  then show ?thesis by (simp add: roundHalfEven_def Let_def)
qed

lemma nearestDouble_mantissa:
  assumes "0 \<le> n" "0 < d"
  shows "0 \<le> fst (nearestDouble n d)"
proof (cases "n = 0")
  case True
  then show ?thesis by (simp add: nearestDouble_def)
next
  case False
  with assms have n: "0 < n" by simp
  have "0 \<le> roundHalfEven (n * 2 ^ expDown n d) (d * 2 ^ expUp n d)"
    using n assms(2) by (intro roundHalfEven_nonneg) simp_all
  with n show ?thesis by (simp add: nearestDouble_def Let_def)
qed

lemma powr_nonneg_exp: "0 \<le> e \<Longrightarrow> 2 powr real_of_int e = 2 ^ nat e"
proof -
  assume "0 \<le> e"
  then have "real_of_int e = real (nat e)" by simp
  then show ?thesis by (simp only: powr_realpow zero_less_numeral)
qed

lemma powr_neg_exp: "\<not> 0 \<le> e \<Longrightarrow> 2 powr real_of_int e = 1 / 2 ^ nat (- e)"
proof -
  assume "\<not> 0 \<le> e"
  then have "real_of_int e = - real (nat (- e))" by simp
  then show ?thesis by (simp only: powr_minus powr_realpow zero_less_numeral inverse_eq_divide)
qed

lemma fmul_error:
  assumes "0 \<le> fst x"
  shows "\<bar>doubleValue (fmul x 100) - 100 * doubleValue x\<bar> \<le> (100 * doubleValue x) / 2 ^ 53"
proof -
  obtain m e where x: "x = (m, e)" by (cases x)
  with assms have m: "0 \<le> m" by simp
  show ?thesis
  proof (cases "0 \<le> e")
    case True
    define n where "n = m * 100 * 2 ^ nat e"
    have f: "fmul x 100 = nearestDouble n 1" using True by (simp add: x fmul_def n_def)
    have n: "0 \<le> n" using m by (simp add: n_def)
    have v: "100 * doubleValue x = real_of_int n / real_of_int 1"
      unfolding x doubleValue_def n_def by (simp add: powr_nonneg_exp [OF True])
    from nearestDouble_error [OF n, of 1] show ?thesis
      unfolding f v by simp
  next
    case False
    define n where "n = m * 100"
    define d :: int where "d = 2 ^ nat (- e)"
    have f: "fmul x 100 = nearestDouble n d" using False by (simp add: x fmul_def n_def d_def)
    have n: "0 \<le> n" using m by (simp add: n_def)
    have d: "0 < d" by (simp add: d_def)
    have v: "100 * doubleValue x = real_of_int n / real_of_int d"
      unfolding x doubleValue_def n_def d_def by (simp add: powr_neg_exp [OF False])
    from nearestDouble_error [OF n d] show ?thesis
      unfolding f v .
  qed
qed

lemma mathRound_floor: "mathRound x = \<lfloor>doubleValue x + 1 / 2\<rfloor>"
proof -
  obtain m e where x: "x = (m, e)" by (cases x)
  show ?thesis
  proof (cases "0 \<le> e")
    case True
    have "doubleValue x = of_int (m * 2 ^ nat e)"
      unfolding x doubleValue_def by (simp add: powr_nonneg_exp [OF True])
    moreover have "\<lfloor>real_of_int (m * 2 ^ nat e) + 1 / 2\<rfloor> = m * 2 ^ nat e"
      by (rule floor_unique) simp_all
    moreover have "mathRound x = m * 2 ^ nat e" using True by (simp add: x mathRound_def)
    ultimately show ?thesis by simp
  next
    case False
    define k where "k = nat (- e)"
    have "doubleValue x = real_of_int m / 2 ^ k"
      unfolding x doubleValue_def k_def by (simp add: powr_neg_exp [OF False])
    then have "doubleValue x + 1 / 2 = real_of_int (2 * m + 2 ^ k) / real_of_int (2 ^ (k + 1))"
      by (simp add: field_simps)
    then have "\<lfloor>doubleValue x + 1 / 2\<rfloor> = (2 * m + 2 ^ k) div 2 ^ (k + 1)"
      by (simp only: floor_divide_of_int_eq)
    moreover have "mathRound x = (2 * m + 2 ^ k) div 2 ^ (k + 1)"
      using False by (simp add: x mathRound_def k_def)
    ultimately show ?thesis by simp
  qed
qed

lemma percent_error:
  assumes "0 \<le> a" "a \<le> 2 ^ 43" "0 < b"
  shows "\<bar>doubleValue (fmul (fdiv a b) 100) - 100 * of_int a / of_int b\<bar> < 1 / (2 * of_int b)"
proof -
  define v where "v = real_of_int a / of_int b"
  define q where "q = doubleValue (fdiv a b)"
  define x where "x = doubleValue (fmul (fdiv a b) 100)"
  have b: "0 < real_of_int b" using assms by simp
  have v0: "0 \<le> v" using assms by (simp add: v_def)
  have "\<bar>q - v\<bar> \<le> v / 2 ^ 53"
    unfolding q_def v_def fdiv_def by (rule nearestDouble_error [OF assms(1,3)])
  then have e1: "q \<le> v + v / 2 ^ 53" "v - v / 2 ^ 53 \<le> q"
    by (simp_all only: abs_le_iff) linarith+
  have "0 \<le> fst (fdiv a b)"
    unfolding fdiv_def by (rule nearestDouble_mantissa [OF assms(1,3)])
  from fmul_error [OF this] have "\<bar>x - 100 * q\<bar> \<le> (100 * q) / 2 ^ 53"
    by (simp only: x_def q_def)
  then have e2: "x \<le> 100 * q + (100 * q) / 2 ^ 53" "100 * q - (100 * q) / 2 ^ 53 \<le> x"
    by (simp_all only: abs_le_iff) linarith+
  have e4: "x - 100 * v \<le> 300 * v / 2 ^ 53" "- (300 * v / 2 ^ 53) \<le> x - 100 * v"
    using e1 e2 v0 by simp_all
  have "real_of_int a \<le> 2 ^ 43" using assms(2) by (metis of_int_le_iff of_int_numeral of_int_power)
  then have "600 * real_of_int a < 2 ^ 53" by simp
  then have "600 * real_of_int a / of_int b < 2 ^ 53 / of_int b"
    using b by (simp only: divide_strict_right_mono)
  then have "300 * v / 2 ^ 53 < 1 / (2 * of_int b)"
    using b by (simp add: v_def field_simps)
  with e4 have "\<bar>x - 100 * v\<bar> < 1 / (2 * of_int b)" by (simp only: abs_less_iff) linarith
  then show ?thesis by (simp add: x_def v_def)
qed

lemma div_mod_real:
  assumes "0 < d"
  shows "real_of_int n / of_int d = of_int (n div d) + of_int (n mod d) / of_int d"
proof -
  have "n = (n div d) * d + n mod d" by simp
  then have "real_of_int n = of_int (n div d) * of_int d + of_int (n mod d)"
    by (metis of_int_add of_int_mult)
  then show ?thesis using assms by (simp add: field_simps)
qed

lemma jsPercent_exact:
  assumes "0 \<le> a" "a \<le> 2 ^ 43" "0 < b" "\<not> 2 * b dvd 200 * a + b"
  shows "jsPercent a b = specPercent a b"
proof -
  define x where "x = doubleValue (fmul (fdiv a b) 100)"
  define k where "k = (200 * a + b) div (2 * b)"
  define r where "r = (200 * a + b) mod (2 * b)"
  define h where "h = 1 / (2 * real_of_int b)"
  have b: "0 < real_of_int b" "0 < 2 * b" using assms by simp_all
  have err: "\<bar>x - 100 * of_int a / of_int b\<bar> < h"
    unfolding x_def h_def by (rule percent_error [OF assms(1-3)])
  have r: "1 \<le> r" "r \<le> 2 * b - 1"
    using assms b(2) unfolding r_def
    by (metis dvd_eq_mod_eq_0 pos_mod_sign less_le not_le zle_diff1_eq zless_imp_add1_zle add_0, simp)
  have "100 * real_of_int a / of_int b + 1 / 2 = real_of_int (200 * a + b) / of_int (2 * b)"
    using b by (simp add: field_simps)
  also have "\<dots> = of_int k + of_int r / of_int (2 * b)"
    unfolding k_def r_def by (rule div_mod_real [OF b(2)])
  finally have y: "100 * real_of_int a / of_int b + 1 / 2 = of_int k + of_int r * h"
    by (simp add: h_def)
  have "real_of_int 1 \<le> of_int r" using r(1) by (simp only: of_int_le_iff)
  then have lo: "h \<le> of_int r * h" using b by (simp add: h_def field_simps)
  have "real_of_int r \<le> of_int (2 * b - 1)" using r(2) by (simp only: of_int_le_iff)
  then have hi: "of_int r * h \<le> 1 - h" using b by (simp add: h_def field_simps)
  have "of_int k \<le> x + 1 / 2" "x + 1 / 2 < of_int k + 1"
    using err y lo hi by linarith+
  then have "\<lfloor>x + 1 / 2\<rfloor> = k" by (rule floor_unique)
  then show ?thesis by (simp add: jsPercent_def mathRound_floor x_def k_def specPercent_def)
qed

lemma jsPercent_tie:
  assumes "0 \<le> a" "a \<le> 2 ^ 43" "0 < b" "2 * b dvd 200 * a + b"
  shows "jsPercent a b = specPercent a b \<or> jsPercent a b = specPercent a b - 1"
proof -
  define x where "x = doubleValue (fmul (fdiv a b) 100)"
  define k where "k = (200 * a + b) div (2 * b)"
  define h where "h = 1 / (2 * real_of_int b)"
  have b: "0 < real_of_int b" "0 < 2 * b" using assms by simp_all
  have err: "\<bar>x - 100 * of_int a / of_int b\<bar> < h"
    unfolding x_def h_def by (rule percent_error [OF assms(1-3)])
  have r: "(200 * a + b) mod (2 * b) = 0" using assms(4) by simp
  have "100 * real_of_int a / of_int b + 1 / 2 = real_of_int (200 * a + b) / of_int (2 * b)"
    using b by (simp add: field_simps)
  also have "\<dots> = of_int k + of_int ((200 * a + b) mod (2 * b)) / of_int (2 * b)"
    unfolding k_def by (rule div_mod_real [OF b(2)])
  finally have y: "100 * real_of_int a / of_int b + 1 / 2 = of_int k"
    by (simp add: r)
  have "real_of_int 1 \<le> of_int b" using assms(3) by (simp only: of_int_le_iff)
  then have h: "h \<le> 1 / 2" using b by (simp add: h_def field_simps)
  have "h > 0" using b by (simp add: h_def)
  show ?thesis
  proof (cases "of_int k \<le> x + 1 / 2")
    case True
    moreover have "x + 1 / 2 < of_int k + 1" using err y h by linarith
    ultimately have "\<lfloor>x + 1 / 2\<rfloor> = k" by (rule floor_unique)
    then show ?thesis by (simp add: jsPercent_def mathRound_floor x_def k_def specPercent_def)
  next
    case False
    then have "x + 1 / 2 < of_int (k - 1) + 1" by simp
    moreover have "of_int (k - 1) \<le> x + 1 / 2" using err y h by simp
    ultimately have "\<lfloor>x + 1 / 2\<rfloor> = k - 1" by (intro floor_unique)
    then show ?thesis by (simp add: jsPercent_def mathRound_floor x_def k_def specPercent_def)
  qed
qed

subsection \<open>Tutor group attendance\<close>

lemma foldl_setInsert:
  "distinct acc \<Longrightarrow>
   distinct (foldl setInsert acc xs) \<and> set (foldl setInsert acc xs) = set acc \<union> set xs"
  by (induction xs arbitrary: acc) (auto simp: setInsert_def)

lemma arrayFromSet_set: "set (arrayFromSet xs) = set xs"
  and arrayFromSet_distinct: "distinct (arrayFromSet xs)"
  using foldl_setInsert [of "[]" xs] by (simp_all add: arrayFromSet_def)

lemma foldl_add:
  "foldl (\<lambda>acc s. acc + f s) (z :: int) xs = z + sum_list (map f xs)"
  by (induction xs arbitrary: z) simp_all

lemma getStudents_set: "set (getStudents st) = set (students st)"
  by (simp add: getStudents_def descById_def)

lemma getStudents_length: "length (getStudents st) = length (students st)"
  by (simp add: getStudents_def descById_def)

lemma getTutorGroupAttendance_rows:
  "getTutorGroupAttendance st =
     map (\<lambda>g. \<lparr>name = g,
                 present = (if 188 * int (length (groupMembers st g)) > 0
                            then jsPercent (totalPresent (groupMembers st g))
                                   (188 * int (length (groupMembers st g)))
                            else 0)\<rparr>)
       (arrayFromSet (map tutorGroup (getStudents st)))"
  by (simp add: getTutorGroupAttendance_def Let_def groupMembers_def totalPresent_def foldl_add
      mult.commute)

lemma totalPresent_range:
  "\<forall>s\<in>set ms. counterOk s \<Longrightarrow> 0 \<le> totalPresent ms \<and> totalPresent ms \<le> 188 * int (length ms)"
  by (induction ms) (auto simp: totalPresent_def counterOk_def orZero_def split: option.splits)

text \<open>
  Claim C7, as the code has it. In a store whose attendance counters are in the range
  \<open>0..188\<close> and that has fewer than \<open>2 ^ 31\<close> students (the key is a 32-bit serial),
  \<open>getTutorGroupAttendance\<close> returns one entry for each tutor group that has a
  student, and none for an empty group. The value of an entry is
  \<open>Math.round((total / possible) * 100)\<close> in double precision. It is the rounded
  percentage \<open>specPercent total possible\<close>, unless \<open>100 * total / possible\<close> lies
  exactly halfway between two integers: then it is that value or the integer below.
\<close>

theorem getTutorGroupAttendance_percent:
  assumes ok: "\<forall>s\<in>set (students st). counterOk s"
    and len: "length (students st) < 2 ^ 31"
  shows "distinct (map name (getTutorGroupAttendance st)) \<and>
         set (map name (getTutorGroupAttendance st)) = tutorGroup ` set (students st) \<and>
         (\<forall>g\<in>set (getTutorGroupAttendance st).
            groupMembers st (name g) \<noteq> [] \<and>
            (if 2 * (188 * int (length (groupMembers st (name g))))
                  dvd 200 * totalPresent (groupMembers st (name g))
                      + 188 * int (length (groupMembers st (name g)))
             then present g = specPercent (totalPresent (groupMembers st (name g)))
                                (188 * int (length (groupMembers st (name g)))) \<or>
                  present g = specPercent (totalPresent (groupMembers st (name g)))
                                (188 * int (length (groupMembers st (name g)))) - 1
             else present g = specPercent (totalPresent (groupMembers st (name g)))
                                (188 * int (length (groupMembers st (name g))))))"
proof -
  let ?groups = "arrayFromSet (map tutorGroup (getStudents st))"
  have names: "map name (getTutorGroupAttendance st) = ?groups"
    by (simp add: getTutorGroupAttendance_rows o_def)
  have 1: "distinct (map name (getTutorGroupAttendance st))"
    unfolding names by (rule arrayFromSet_distinct)
  have 2: "set (map name (getTutorGroupAttendance st)) = tutorGroup ` set (students st)"
    unfolding names by (simp add: arrayFromSet_set getStudents_set)
  have 3: "groupMembers st (name g) \<noteq> [] \<and>
            (if 2 * (188 * int (length (groupMembers st (name g))))
                  dvd 200 * totalPresent (groupMembers st (name g))
                      + 188 * int (length (groupMembers st (name g)))
             then present g = specPercent (totalPresent (groupMembers st (name g)))
                                (188 * int (length (groupMembers st (name g)))) \<or>
                  present g = specPercent (totalPresent (groupMembers st (name g)))
                                (188 * int (length (groupMembers st (name g)))) - 1
             else present g = specPercent (totalPresent (groupMembers st (name g)))
                                (188 * int (length (groupMembers st (name g)))))"
    if g: "g \<in> set (getTutorGroupAttendance st)" for g
  proof -
    define ms where "ms = groupMembers st (name g)"
    define a where "a = totalPresent ms"
    define b where "b = 188 * int (length ms)"
    from g have "name g \<in> set (map name (getTutorGroupAttendance st))" by simp
    then have "name g \<in> tutorGroup ` set (getStudents st)"
      unfolding 2 by (simp add: getStudents_set)
    then have ne: "ms \<noteq> []"
      by (auto simp: ms_def groupMembers_def filter_empty_conv)
    then have b: "0 < b" by (simp add: b_def)
    from g have p: "present g = jsPercent a b"
      using b by (auto simp: getTutorGroupAttendance_rows a_def b_def ms_def)
    have sub: "set ms \<subseteq> set (students st)"
      by (auto simp: ms_def groupMembers_def getStudents_set)
    with ok have "\<forall>s\<in>set ms. counterOk s" by blast
    from totalPresent_range [OF this] have a: "0 \<le> a" "a \<le> b" by (simp_all add: a_def b_def)
    have "length ms \<le> length (students st)"
      unfolding ms_def groupMembers_def getStudents_length [symmetric] by (rule length_filter_le)
    with len have "int (length ms) < 2 ^ 31"
      by (metis le_less_trans of_nat_less_iff of_nat_numeral of_nat_power)
    then have "b \<le> 2 ^ 43" by (simp add: b_def)
    with a have a43: "a \<le> 2 ^ 43" by simp
    show ?thesis
      using ne p jsPercent_exact [OF a(1) a43 b] jsPercent_tie [OF a(1) a43 b]
      unfolding ms_def [symmetric] a_def [symmetric] b_def [symmetric]
      by (simp split: if_splits)
  qed
  from 1 2 3 show ?thesis by blast
qed

theorem getTutorGroupAttendance_percent_witness:
  "students (run [CreateStudent alice, CreateStudent bob]) = [aliceRow 188 0, bobRow 188 0] \<and>
   counterOk (aliceRow 188 0) \<and> counterOk (bobRow 188 0) \<and>
   getTutorGroupAttendance (run [CreateStudent alice, CreateStudent bob])
     = [\<lparr>name = ''7A'', present = 100\<rparr>] \<and>
   length (groupMembers (run [CreateStudent alice, CreateStudent bob]) ''7A'') = 2 \<and>
   totalPresent (groupMembers (run [CreateStudent alice, CreateStudent bob]) ''7A'') = 376 \<and>
   specPercent 376 (188 * 2) = 100"
proof -
  let ?st = "run [CreateStudent alice, CreateStudent bob]"
  have e: "students ?st = [aliceRow 188 0, bobRow 188 0]"
    "counterOk (aliceRow 188 0)" "counterOk (bobRow 188 0)"
    "getTutorGroupAttendance ?st = [\<lparr>name = ''7A'', present = 100\<rparr>]"
    "length (groupMembers ?st ''7A'') = 2"
    "totalPresent (groupMembers ?st ''7A'') = 376"
    "specPercent 376 (188 * 2) = 100"
    by code_simp+
  have h1: "\<forall>s\<in>set (students ?st). counterOk s" using e(1-3) by simp
  have h2: "length (students ?st) < 2 ^ 31" using e(1) by simp
  from getTutorGroupAttendance_percent [OF h1 h2] e show ?thesis by simp
qed

text \<open>Repeated absences of one student, and the students that \<open>tenPupils\<close> leaves.\<close>

lemma absence_step:
  assumes "getStudent st i = Some s0" "attendanceSessionsPresent s0 = Some p" "0 \<le> p"
  shows "students (step st (RecordAttendance now (mark i d sess ''ABSENT''))) =
           map (\<lambda>s. if student_id s = i then s\<lparr>attendanceSessionsPresent := Some (max 0 (p - 1))\<rparr> else s)
             (students st)"
    and "getStudent (step st (RecordAttendance now (mark i d sess ''ABSENT''))) i =
           Some (s0\<lparr>attendanceSessionsPresent := Some (max 0 (p - 1))\<rparr>)"
proof -
  let ?r = "mark i d sess ''ABSENT''"
  have i: "att_studentId ?r = i" "att_status ?r = ''ABSENT''" by (simp_all add: mark_def)
  from assms(1) have g: "getStudent st (att_studentId ?r) = Some s0" by (simp add: i)
  from recordAttendance_found [OF g, of now] obtain att st' where
    res: "recordAttendance now ?r st = Inr (att, st')" and
    s': "getStudent st' i = Some (s0\<lparr>attendanceSessionsPresent := Some (max 0 (p - 1))\<rparr>)"
    using assms(2) by (auto simp: i orZero_def)
  from recordAttendance_students [OF res] g assms(2)
  have "students st' = map (\<lambda>s. if student_id s = i
          then s\<lparr>attendanceSessionsPresent := Some (max 0 (p - 1))\<rparr> else s) (students st)"
    by (simp add: i orZero_def)
  with res s' show
    "students (step st (RecordAttendance now ?r)) =
       map (\<lambda>s. if student_id s = i then s\<lparr>attendanceSessionsPresent := Some (max 0 (p - 1))\<rparr> else s)
         (students st)"
    "getStudent (step st (RecordAttendance now ?r)) i =
       Some (s0\<lparr>attendanceSessionsPresent := Some (max 0 (p - 1))\<rparr>)"
    by simp_all
qed

lemma absences_students:
  assumes "getStudent st i = Some s0" "attendanceSessionsPresent s0 = Some p" "0 \<le> p"
  shows "students (foldl step st (absences i (Suc k))) =
           map (\<lambda>s. if student_id s = i
                     then s\<lparr>attendanceSessionsPresent := Some (max 0 (p - 1 - int k))\<rparr> else s)
             (students st)"
  using assms
proof (induction k arbitrary: st s0 p)
  case 0
  from absence_step(1) [OF 0] show ?case by (simp add: absences_def)
next
  case (Suc k)
  let ?a = "RecordAttendance 0 (mark i ''2024-05-06'' ''AM'' ''ABSENT'')"
  let ?st1 = "step st ?a"
  have g1: "getStudent ?st1 i = Some (s0\<lparr>attendanceSessionsPresent := Some (max 0 (p - 1))\<rparr>)"
    by (rule absence_step(2) [OF Suc.prems])
  have s1: "students ?st1 =
      map (\<lambda>s. if student_id s = i then s\<lparr>attendanceSessionsPresent := Some (max 0 (p - 1))\<rparr> else s)
        (students st)"
    by (rule absence_step(1) [OF Suc.prems])
  have "students (foldl step ?st1 (absences i (Suc k))) =
      map (\<lambda>s. if student_id s = i
                then s\<lparr>attendanceSessionsPresent := Some (max 0 (max 0 (p - 1) - 1 - int k))\<rparr> else s)
        (students ?st1)"
    by (rule Suc.IH [OF g1]) simp_all
  moreover have "max 0 (max 0 (p - 1) - 1 - int k) = max 0 (p - 1 - int (Suc k))"
    using Suc.prems(3) by simp
  moreover have "foldl step st (absences i (Suc (Suc k))) = foldl step ?st1 (absences i (Suc k))"
    by (simp add: absences_def)
  ultimately show ?case
    unfolding s1 by (simp add: o_def cong: if_cong)
qed

lemma absences_rows:
  assumes "students st = rows" "find (\<lambda>s. student_id s = i) rows = Some s0"
    and "attendanceSessionsPresent s0 = Some p" "0 \<le> p" "k = Suc k'"
  shows "students (foldl step st (absences i k)) =
           map (\<lambda>s. if student_id s = i
                     then s\<lparr>attendanceSessionsPresent := Some (max 0 (p - 1 - int k'))\<rparr> else s)
             rows"
proof -
  from assms(1,2) have "getStudent st i = Some s0" by (simp add: getStudent_def)
  from absences_students [OF this assms(3,4), of k'] assms(1,5) show ?thesis by simp
qed

lemma tenPupils_students: "students (run tenPupils) = tenRows"
proof -
  define st0 where "st0 = foldl step emptyStore (map (\<lambda>i. CreateStudent (pupil i)) [1..<11])"
  define st1 where "st1 = foldl step st0 (absences 1 47)"
  define st2 where "st2 = foldl step st1 (absences 2 188)"
  define st3 where "st3 = foldl step st2 (absences 3 188)"
  define st4 where "st4 = foldl step st3 (absences 4 188)"
  define st5 where "st5 = foldl step st4 (absences 5 188)"
  have r: "run tenPupils = st5"
    by (simp only: run_def tenPupils_def foldl_append st0_def st1_def st2_def st3_def st4_def st5_def)
  have s0: "students st0 = [pupilRow 1 188, pupilRow 2 188, pupilRow 3 188, pupilRow 4 188,
      pupilRow 5 188, pupilRow 6 188, pupilRow 7 188, pupilRow 8 188, pupilRow 9 188, pupilRow 10 188]"
    unfolding st0_def by code_simp
  have s1: "students st1 = [pupilRow 1 141, pupilRow 2 188, pupilRow 3 188, pupilRow 4 188,
      pupilRow 5 188, pupilRow 6 188, pupilRow 7 188, pupilRow 8 188, pupilRow 9 188, pupilRow 10 188]"
    unfolding st1_def
    by (subst absences_rows [OF s0, of 1 "pupilRow 1 188" 188 47 46]) (simp_all add: pupilRow_def)
  have s2: "students st2 = [pupilRow 1 141, pupilRow 2 0, pupilRow 3 188, pupilRow 4 188,
      pupilRow 5 188, pupilRow 6 188, pupilRow 7 188, pupilRow 8 188, pupilRow 9 188, pupilRow 10 188]"
    unfolding st2_def
    by (subst absences_rows [OF s1, of 2 "pupilRow 2 188" 188 188 187]) (simp_all add: pupilRow_def)
  have s3: "students st3 = [pupilRow 1 141, pupilRow 2 0, pupilRow 3 0, pupilRow 4 188,
      pupilRow 5 188, pupilRow 6 188, pupilRow 7 188, pupilRow 8 188, pupilRow 9 188, pupilRow 10 188]"
    unfolding st3_def
    by (subst absences_rows [OF s2, of 3 "pupilRow 3 188" 188 188 187]) (simp_all add: pupilRow_def)
  have s4: "students st4 = [pupilRow 1 141, pupilRow 2 0, pupilRow 3 0, pupilRow 4 0,
      pupilRow 5 188, pupilRow 6 188, pupilRow 7 188, pupilRow 8 188, pupilRow 9 188, pupilRow 10 188]"
    unfolding st4_def
    by (subst absences_rows [OF s3, of 4 "pupilRow 4 188" 188 188 187]) (simp_all add: pupilRow_def)
  have s5: "students st5 = tenRows"
    unfolding st5_def tenRows_def
    by (subst absences_rows [OF s4, of 5 "pupilRow 5 188" 188 188 187]) (simp_all add: pupilRow_def)
  show ?thesis by (simp only: r s5)
qed

lemma rollup_students:
  "getTutorGroupAttendance st = getTutorGroupAttendance (emptyStore\<lparr>students := students st\<rparr>)"
  "groupMembers st g = groupMembers (emptyStore\<lparr>students := students st\<rparr>) g"
  by (simp_all add: getTutorGroupAttendance_def groupMembers_def getStudents_def)

text \<open>
  The claim as stated fails at a percentage that ends in one half. After the operations
  \<open>tenPupils\<close> the ten pupils of 7A have 1081 sessions present of 1880, which is
  57.5 percent and rounds to 58. In double precision \<open>1081 / 1880\<close> is a little less
  than 0.575, the product with 100 is a little less than 57.5, and the function
  returns 57.
\<close>

theorem getTutorGroupAttendance_percent_counterexample:
  "getTutorGroupAttendance (run tenPupils) = [\<lparr>name = ''7A'', present = 57\<rparr>] \<and>
   length (groupMembers (run tenPupils) ''7A'') = 10 \<and>
   totalPresent (groupMembers (run tenPupils) ''7A'') = 1081 \<and>
   specPercent 1081 (188 * 10) = 58 \<and>
   2 * (100 * 1081) = 115 * (188 * 10 :: int)"
proof -
  have "getTutorGroupAttendance (emptyStore\<lparr>students := tenRows\<rparr>) = [\<lparr>name = ''7A'', present = 57\<rparr>]"
    by code_simp
  moreover have "length (groupMembers (emptyStore\<lparr>students := tenRows\<rparr>) ''7A'') = 10"
    by code_simp
  moreover have "totalPresent (groupMembers (emptyStore\<lparr>students := tenRows\<rparr>) ''7A'') = 1081"
    by code_simp
  moreover have "specPercent 1081 (188 * 10) = 58" by code_simp
  ultimately show ?thesis
    by (simp add: rollup_students [of "run tenPupils"] tenPupils_students)
qed

end
